theory Spec2Isabelle
  imports Main "HOL-Library.Sublist"
begin

section \<open>Text\<close>

text \<open>
  A JavaScript string is a sequence of UTF-16 code units. It is modelled as a \<open>string\<close>;
  a \<open>char\<close> stands for one code unit of the range 0..255, so the development covers
  text of that range. \<open>is_space\<close> is the part of the class \<open>\s\<close> (the WhiteSpace and
  LineTerminator code units, which is also what \<open>String.prototype.trim\<close> strips) that
  lies in the range.
\<close>

definition is_space :: "char \<Rightarrow> bool" where
  "is_space c \<longleftrightarrow>
     c = CHR 0x09 \<or> c = CHR 0x0A \<or> c = CHR 0x0B \<or> c = CHR 0x0C \<or> c = CHR 0x0D \<or>
     c = CHR 0x20 \<or> c = CHR 0xA0"

definition trim :: "string \<Rightarrow> string" where
  "trim s = rev (dropWhile is_space (rev (dropWhile is_space s)))"

text \<open>
  \<open>s.split(/\s+/)\<close>: the pieces of \<open>s\<close> between maximal runs of white space. A run at
  the start or at the end of \<open>s\<close> leaves an empty piece there, and the result is never the
  empty array. \<open>split_ws_from cur s\<close> carries the piece read so far.
\<close>

function split_ws_from :: "string \<Rightarrow> string \<Rightarrow> string list" where
  "split_ws_from cur [] = [cur]"
| "split_ws_from cur (c # cs) =
     (if is_space c then cur # split_ws_from [] (dropWhile is_space cs)
      else split_ws_from (cur @ [c]) cs)"
  by pat_completeness auto
termination
  by (relation "measure (\<lambda>(cur, s). length s)") (auto simp: le_imp_less_Suc length_dropWhile_le)

definition split_ws :: "string \<Rightarrow> string list" where
  "split_ws s = split_ws_from [] s"

text \<open>\<open>xs.slice(-n)\<close>: the last \<open>n\<close> elements, all of them when there are fewer.\<close>

definition slice_last :: "nat \<Rightarrow> 'a list \<Rightarrow> 'a list" where
  "slice_last n xs = drop (length xs - n) xs"

text \<open>\<open>xs.join(sep)\<close> on an array of strings.\<close>

fun join :: "string \<Rightarrow> string list \<Rightarrow> string" where
  "join sep [] = []"
| "join sep [x] = x"
| "join sep (x # y # ys) = x @ sep @ join sep (y # ys)"

text \<open>
  \<open>hay.indexOf(needle)\<close>: the position of the first occurrence, \<open>None\<close> for the
  result \<open>-1\<close>.
\<close>

fun indexOf :: "string \<Rightarrow> string \<Rightarrow> nat option" where
  "indexOf [] needle = (if needle = [] then Some 0 else None)"
| "indexOf (c # cs) needle =
     (if prefix needle (c # cs) then Some 0 else map_option Suc (indexOf cs needle))"

text \<open>
  An optional string field of a JavaScript object: \<open>None\<close> when the field is undefined
  or null. \<open>truthy\<close> is the test that \<open>&&\<close>, \<open>||\<close> and \<open>if\<close> apply to it, \<open>a || b\<close> is
  \<open>js_or a b\<close>, and \<open>to_text\<close> is what a template literal or \<open>+\<close> makes of the value.
\<close>

definition truthy :: "string option \<Rightarrow> bool" where
  "truthy v \<longleftrightarrow> (case v of None \<Rightarrow> False | Some s \<Rightarrow> s \<noteq> [])"

definition js_or :: "string option \<Rightarrow> string option \<Rightarrow> string option" where
  "js_or a b = (if truthy a then a else b)"

definition to_text :: "string option \<Rightarrow> string" where
  "to_text v = (case v of None \<Rightarrow> ''undefined'' | Some s \<Rightarrow> s)"


section \<open>Prompt Assembler: \<open>buildPrompt\<close> of src/generation.js\<close>

record compendium_entry =
  ce_id :: "string option"
  ce_title :: "string option"
  ce_body :: "string option"
  ce_description :: "string option"

text \<open>
  The fields of \<open>options\<close> that \<open>buildPrompt\<close> reads. An element of \<open>compendiumEntries\<close>
  is \<open>None\<close> when the array holds null or undefined there; \<open>compendiumEntries\<close> itself is
  \<open>None\<close> when the field is absent.
\<close>

record options =
  povCharacter :: "string option"
  tense :: "string option"
  pov :: "string option"
  prosePrompt :: "string option"
  preview :: bool
  compendiumEntries :: "compendium_entry option list option"

definition default_options :: options where
  "default_options =
     \<lparr>povCharacter = None, tense = None, pov = None, prosePrompt = None, preview = False,
      compendiumEntries = None\<rparr>"

text \<open>
  The only effect of \<open>buildPrompt\<close> is the call of \<open>console.debug\<close>. The console is the
  list of the calls made so far; a call is recorded with its label and the value whose
  \<open>JSON.stringify\<close> rendering is logged.
\<close>

datatype console_call = Debug string "string option"

record world =
  console :: "console_call list"

definition console_debug :: "string \<Rightarrow> string option \<Rightarrow> world \<Rightarrow> world" where
  "console_debug label v w = w\<lparr>console := console w @ [Debug label v]\<rparr>"

definition povName :: "options \<Rightarrow> string" where
  "povName opts =
     (case povCharacter opts of
        None \<Rightarrow> ''the protagonist''
      | Some s \<Rightarrow> if s \<noteq> [] \<and> trim s \<noteq> [] then trim s else ''the protagonist'')"

definition tenseText :: "options \<Rightarrow> string" where
  "tenseText opts = (if tense opts = Some ''present'' then ''present tense'' else ''past tense'')"

definition povText :: "options \<Rightarrow> string" where
  "povText opts = to_text (js_or (pov opts) (Some ''3rd person limited''))"

definition povSentence :: "options \<Rightarrow> string" where
  "povSentence opts =
     ''You are a co-author tasked with assisting your partner. You are writing a story from the point of view of ''
     @ povName opts @ '' in '' @ tenseText opts @ '', in '' @ povText opts @ ''.''"

definition systemPrompt :: "options \<Rightarrow> string" where
  "systemPrompt opts =
     povSentence opts @
     '' You are a creative writing assistant. The author provides a BEAT (what happens next) and you expand it into vivid, engaging prose. Write 2-3 paragraphs that bring the beat to life. Match the author's tone and style. Use sensory details. Show, don't tell.''"

definition contextWords :: "string \<Rightarrow> string" where
  "contextWords sceneContext = join '' '' (slice_last 500 (split_ws sceneContext))"

definition contextText :: "string \<Rightarrow> string" where
  "contextText sceneContext =
     (if sceneContext \<noteq> [] \<and> length sceneContext > 0
      then ''\<newline>\<newline>CURRENT SCENE SO FAR:\<newline>'' @ contextWords sceneContext
      else [])"

definition proseTemplateText :: "options \<Rightarrow> string" where
  "proseTemplateText opts =
     (case prosePrompt opts of
        None \<Rightarrow> []
      | Some p \<Rightarrow>
          if p \<noteq> [] \<and> trim p \<noteq> [] then
            (if preview opts then ''\<newline>\<newline>'' @ trim p
             else ''\<newline>\<newline>--- PROMPT TEMPLATE START ---\<newline>'' @ trim p
                  @ ''\<newline>--- PROMPT TEMPLATE END ---'')
          else [])"

text \<open>
  One turn of the loop over \<open>compendiumEntries\<close>. Reading a field of a null element
  throws, and the \<open>catch\<close> around the body of the loop skips the element.
\<close>

definition entry_title :: "compendium_entry \<Rightarrow> string" where
  "entry_title ce =
     to_text (js_or (ce_title ce) (Some (''entry '' @ to_text (js_or (ce_id ce) (Some [])))))"

definition entry_body :: "compendium_entry \<Rightarrow> string" where
  "entry_body ce =
     to_text
       (js_or
          (js_or
             (js_or (js_or (js_or (ce_body ce) (ce_body ce)) (ce_description ce)) (Some []))
             (ce_body ce))
          (Some []))"

definition render_entry :: "compendium_entry option \<Rightarrow> string" where
  "render_entry e =
     (case e of
        None \<Rightarrow> []
      | Some ce \<Rightarrow>
          ''\<newline>-- '' @ entry_title ce @ '' --\<newline>'' @ entry_body ce @ ''\<newline>'')"

definition compendiumText :: "options \<Rightarrow> string" where
  "compendiumText opts =
     (case compendiumEntries opts of
        None \<Rightarrow> []
      | Some ces \<Rightarrow>
          if \<not> preview opts \<and> length ces > 0
          then ''\<newline>\<newline>COMPENDIUM REFERENCES:\<newline>'' @ concat (map render_entry ces)
          else [])"

definition beat_marker :: string where
  "beat_marker = ''\<newline>\<newline>BEAT TO EXPAND:''"

definition prompt :: "string \<Rightarrow> string \<Rightarrow> options \<Rightarrow> string" where
  "prompt beat sceneContext opts =
     ''<|im_start|>system\<newline>'' @ systemPrompt opts @ ''<|im_end|>\<newline><|im_start|>user\<newline>''
     @ contextText sceneContext @ proseTemplateText opts
     @ ''\<newline>\<newline>BEAT TO EXPAND:\<newline>'' @ beat
     @ ''\<newline>\<newline>Write the next 2-3 paragraphs:<|im_end|>\<newline><|im_start|>assistant\<newline>''"

definition buildPrompt :: "string \<Rightarrow> string \<Rightarrow> options \<Rightarrow> world \<Rightarrow> string \<times> world" where
  "buildPrompt beat sceneContext opts w =
     (let w' = console_debug ''[buildPrompt] received prosePrompt:'' (prosePrompt opts) w;
          p = prompt beat sceneContext opts;
          ct = compendiumText opts
      in if ct \<noteq> [] then
           (case indexOf p ''\<newline>\<newline>BEAT TO EXPAND:'' of
              Some insertAt \<Rightarrow> (take insertAt p @ ct @ ''\<newline>'' @ drop insertAt p, w')
            | None \<Rightarrow> (p, w'))
         else (p, w'))"


text \<open>
  The part of the prompt before the beat instruction, and the beat instruction with the
  open assistant turn after it: \<open>prompt\<close> is the one followed by the other.
\<close>

definition prompt_head :: "string \<Rightarrow> options \<Rightarrow> string" where
  "prompt_head sceneContext opts =
     ''<|im_start|>system\<newline>'' @ systemPrompt opts @ ''<|im_end|>\<newline><|im_start|>user\<newline>''
     @ contextText sceneContext @ proseTemplateText opts"

definition beat_line :: "string \<Rightarrow> string" where
  "beat_line beat =
     ''\<newline>\<newline>BEAT TO EXPAND:\<newline>'' @ beat
     @ ''\<newline>\<newline>Write the next 2-3 paragraphs:<|im_end|>\<newline><|im_start|>assistant\<newline>''"

subsection \<open>What the specification says of the context block and of an entry's body\<close>

text \<open>
  The whitespace-delimited tokens of a text are its maximal runs of characters that are
  not white space. The specification keeps the final \<open>min n 500\<close> of the \<open>n\<close> tokens and
  joins them with single spaces.
\<close>

function tokens :: "string \<Rightarrow> string list" where
  "tokens s =
     (case dropWhile is_space s of
        [] \<Rightarrow> []
      | c # cs \<Rightarrow>
          (c # takeWhile (\<lambda>x. \<not> is_space x) cs) # tokens (dropWhile (\<lambda>x. \<not> is_space x) cs))"
  by pat_completeness auto
termination
proof (relation "measure length")
  fix s :: string and c cs
  assume h: "dropWhile is_space s = c # cs"
  have "length (dropWhile (\<lambda>x. \<not> is_space x) cs) \<le> length cs"
    by (rule length_dropWhile_le)
  moreover have "length (c # cs) \<le> length s"
    using length_dropWhile_le [of is_space s] h by simp
  ultimately show "(dropWhile (\<lambda>x. \<not> is_space x) cs, s) \<in> measure length"
    by simp
qed simp

declare tokens.simps [simp del]

definition spec_contextWords :: "string \<Rightarrow> string" where
  "spec_contextWords sceneContext =
     (let ts = tokens sceneContext; n = length ts
      in join '' '' (drop (n - min n 500) ts))"

text \<open>
  \<open>a ?? b\<close>, the nullish coalescing that the specification writes for the fallback of an
  entry's body: \<open>b\<close> only when \<open>a\<close> is undefined or null.
\<close>

definition nullish :: "string option \<Rightarrow> string option \<Rightarrow> string option" where
  "nullish a b = (case a of None \<Rightarrow> b | Some s \<Rightarrow> Some s)"

definition spec_entry_body :: "compendium_entry \<Rightarrow> string" where
  "spec_entry_body ce = to_text (nullish (nullish (ce_body ce) (ce_description ce)) (Some []))"


section \<open>Stream Decoder: \<open>streamGeneration\<close> of src/generation.js\<close>

subsection \<open>\<open>JSON.parse\<close>\<close>

text \<open>
  \<open>JSON.parse\<close> belongs to the language, not to the repository. It is modelled by a
  lexer and a push-down recogniser of the JSON grammar of ECMA-404. A string of a JSON
  value is a list of code units, since an escape \<open>\uXXXX\<close> denotes any of them. A number
  is kept as the decimal \<open>m * 10 ^ e\<close> that its literal denotes.
\<close>

type_synonym code_units = "nat list"

definition units :: "string \<Rightarrow> code_units" where
  "units s = map of_char s"

datatype json =
    JNull
  | JBool bool
  | JNumber int int
  | JString code_units
  | JArray "json list"
  | JObject "(code_units \<times> json) list"

datatype token = TLBrace | TRBrace | TLBrack | TRBrack | TColon | TComma | TScalar json

definition is_json_ws :: "char \<Rightarrow> bool" where
  "is_json_ws c \<longleftrightarrow> c = CHR 0x20 \<or> c = CHR 0x09 \<or> c = CHR 0x0A \<or> c = CHR 0x0D"

definition is_digit :: "char \<Rightarrow> bool" where
  "is_digit c \<longleftrightarrow> (48::nat) \<le> of_char c \<and> of_char c \<le> (57::nat)"

definition digit_val :: "char \<Rightarrow> nat" where
  "digit_val c = of_char c - 48"

definition hex_digit :: "char \<Rightarrow> nat option" where
  "hex_digit c =
     (let n = of_char c :: nat
      in if 48 \<le> n \<and> n \<le> 57 then Some (n - 48)
         else if 65 \<le> n \<and> n \<le> 70 then Some (n - 55)
         else if 97 \<le> n \<and> n \<le> 102 then Some (n - 87)
         else None)"

definition hex4 :: "char \<Rightarrow> char \<Rightarrow> char \<Rightarrow> char \<Rightarrow> nat option" where
  "hex4 a b c d =
     (case (hex_digit a, hex_digit b, hex_digit c, hex_digit d) of
        (Some p, Some q, Some r, Some s) \<Rightarrow> Some (4096 * p + 256 * q + 16 * r + s)
      | _ \<Rightarrow> None)"

text \<open>The code unit of a one-letter escape: the letter after the backslash.\<close>

definition simple_escape :: "char \<Rightarrow> nat option" where
  "simple_escape e =
     (if e = CHR 0x22 then Some 0x22
      else if e = CHR 0x5C then Some 0x5C
      else if e = CHR ''/'' then Some 0x2F
      else if e = CHR ''b'' then Some 0x08
      else if e = CHR ''f'' then Some 0x0C
      else if e = CHR ''n'' then Some 0x0A
      else if e = CHR ''r'' then Some 0x0D
      else if e = CHR ''t'' then Some 0x09
      else None)"

definition cons_units :: "nat \<Rightarrow> (code_units \<times> string) option \<Rightarrow> (code_units \<times> string) option" where
  "cons_units u r = (case r of None \<Rightarrow> None | Some (us, rest) \<Rightarrow> Some (u # us, rest))"

text \<open>
  \<open>lex_string s\<close> reads a string literal whose opening quote has been read: the code
  units of the string and the text after the closing quote.
\<close>

fun lex_string :: "string \<Rightarrow> (code_units \<times> string) option" where
  "lex_string [] = None"
| "lex_string (c # cs) =
     (if c = CHR 0x22 then Some ([], cs)
      else if c = CHR 0x5C then
        (case cs of
           [] \<Rightarrow> None
         | e # r \<Rightarrow>
             if e = CHR ''u'' then
               (case r of
                  h1 # h2 # h3 # h4 # r' \<Rightarrow>
                    (case hex4 h1 h2 h3 h4 of
                       None \<Rightarrow> None
                     | Some u \<Rightarrow> cons_units u (lex_string r'))
                | _ \<Rightarrow> None)
             else
               (case simple_escape e of
                  None \<Rightarrow> None
                | Some u \<Rightarrow> cons_units u (lex_string r)))
      else if (of_char c :: nat) < 0x20 then None
      else cons_units (of_char c) (lex_string cs))"

definition digits_val :: "string \<Rightarrow> nat" where
  "digits_val ds = foldl (\<lambda>acc d. 10 * acc + digit_val d) 0 ds"

definition is_num_char :: "char \<Rightarrow> bool" where
  "is_num_char c \<longleftrightarrow>
     is_digit c \<or> c = CHR ''-'' \<or> c = CHR ''+'' \<or> c = CHR ''.'' \<or> c = CHR ''e'' \<or> c = CHR ''E''"

text \<open>
  The exponent part of a number literal, empty or \<open>e\<close>, an optional sign and digits.
\<close>

definition parse_exponent :: "string \<Rightarrow> int option" where
  "parse_exponent s =
     (case s of
        [] \<Rightarrow> Some 0
      | x # r \<Rightarrow>
          if x = CHR ''e'' \<or> x = CHR ''E'' then
            (let neg = (r \<noteq> [] \<and> hd r = CHR ''-'');
                 ds = (if r \<noteq> [] \<and> (hd r = CHR ''-'' \<or> hd r = CHR ''+'') then tl r else r)
             in if ds \<noteq> [] \<and> list_all is_digit ds
                then Some (if neg then - int (digits_val ds) else int (digits_val ds))
                else None)
          else None)"

text \<open>
  A whole number literal: an optional minus, an integer part without a superfluous
  leading zero, an optional fraction, an optional exponent.
\<close>

definition parse_number :: "string \<Rightarrow> (int \<times> int) option" where
  "parse_number s =
     (let neg = (s \<noteq> [] \<and> hd s = CHR ''-'');
          s1 = (if neg then tl s else s);
          ip = takeWhile is_digit s1;
          s2 = dropWhile is_digit s1;
          has_frac = (s2 \<noteq> [] \<and> hd s2 = CHR ''.'');
          fp = (if has_frac then takeWhile is_digit (tl s2) else []);
          s3 = (if has_frac then dropWhile is_digit (tl s2) else s2)
      in if ip = [] \<or> (length ip > 1 \<and> hd ip = CHR ''0'') \<or> (has_frac \<and> fp = []) then None
         else
           (case parse_exponent s3 of
              None \<Rightarrow> None
            | Some ex \<Rightarrow>
                Some (if neg then - int (digits_val (ip @ fp)) else int (digits_val (ip @ fp)),
                      ex - int (length fp))))"

definition cons_token :: "token \<Rightarrow> token list option \<Rightarrow> token list option" where
  "cons_token t r = map_option ((#) t) r"

function lex :: "string \<Rightarrow> token list option" where
  "lex [] = Some []"
| "lex (c # cs) =
     (if is_json_ws c then lex cs
      else if c = CHR ''{'' then cons_token TLBrace (lex cs)
      else if c = CHR ''}'' then cons_token TRBrace (lex cs)
      else if c = CHR ''['' then cons_token TLBrack (lex cs)
      else if c = CHR '']'' then cons_token TRBrack (lex cs)
      else if c = CHR '':'' then cons_token TColon (lex cs)
      else if c = CHR '','' then cons_token TComma (lex cs)
      else if c = CHR 0x22 then
        (case lex_string cs of
           None \<Rightarrow> None
         | Some (us, rest) \<Rightarrow> cons_token (TScalar (JString us)) (lex rest))
      else if c = CHR ''-'' \<or> is_digit c then
        (case parse_number (c # takeWhile is_num_char cs) of
           None \<Rightarrow> None
         | Some (m, e) \<Rightarrow> cons_token (TScalar (JNumber m e)) (lex (dropWhile is_num_char cs)))
      else if prefix ''true'' (c # cs) then cons_token (TScalar (JBool True)) (lex (drop 3 cs))
      else if prefix ''false'' (c # cs) then cons_token (TScalar (JBool False)) (lex (drop 4 cs))
      else if prefix ''null'' (c # cs) then cons_token (TScalar JNull) (lex (drop 3 cs))
      else None)"
  by pat_completeness auto
termination
proof (relation "measure length")
  have len: "lex_string s = Some (us, rest) \<Longrightarrow> length rest < Suc (length s)"
    for s us rest
  proof (induction "length s" arbitrary: s us rest rule: less_induct)
    case less
    show ?case
    proof (cases s)
      case Nil
      with less.prems show ?thesis by simp
    next
      case (Cons c cs)
      have ih: "lex_string t = Some (vs, r) \<Longrightarrow> length t \<le> length cs \<Longrightarrow> length r < Suc (length t)"
        for t vs r
        using less.hyps [of t vs r] Cons by simp
      from less.prems Cons show ?thesis
        by (auto simp: cons_units_def split: if_splits list.splits option.splits dest!: ih)
    qed
  qed
  show "(rest, c # cs) \<in> measure length"
    if "lex_string cs = Some x" and "(us, rest) = x" for c cs x us rest
    using len [of cs us rest] that by simp
qed (auto simp: le_imp_less_Suc length_dropWhile_le)


declare lex.simps [simp del]

text \<open>
  The recogniser reads the tokens from left to right. Its stack holds the arrays and
  objects that are open, the innermost first; \<open>expect\<close> says what may come next.
\<close>

datatype frame =
    InArray "json list"
  | InObject "(code_units \<times> json) list"
  | AfterKey "(code_units \<times> json) list" code_units

datatype expect = Value | ValueOrClose | KeyOrClose | Key | Colon | CommaOrClose | Finished json

fun deliver :: "json \<Rightarrow> frame list \<Rightarrow> (expect \<times> frame list) option" where
  "deliver v [] = Some (Finished v, [])"
| "deliver v (InArray es # st) = Some (CommaOrClose, InArray (es @ [v]) # st)"
| "deliver v (AfterKey ms k # st) = Some (CommaOrClose, InObject (ms @ [(k, v)]) # st)"
| "deliver v (InObject ms # st) = None"

fun open_value :: "token \<Rightarrow> frame list \<Rightarrow> (expect \<times> frame list) option" where
  "open_value (TScalar v) st = deliver v st"
| "open_value TLBrack st = Some (ValueOrClose, InArray [] # st)"
| "open_value TLBrace st = Some (KeyOrClose, InObject [] # st)"
| "open_value t st = None"

fun read_key :: "token \<Rightarrow> frame list \<Rightarrow> (expect \<times> frame list) option" where
  "read_key (TScalar (JString k)) (InObject ms # st) = Some (Colon, AfterKey ms k # st)"
| "read_key t st = None"

fun step :: "token \<Rightarrow> expect \<Rightarrow> frame list \<Rightarrow> (expect \<times> frame list) option" where
  "step t Value st = open_value t st"
| "step TRBrack ValueOrClose (InArray es # st) = deliver (JArray es) st"
| "step t ValueOrClose st = open_value t st"
| "step TRBrace KeyOrClose (InObject ms # st) = deliver (JObject ms) st"
| "step t KeyOrClose st = read_key t st"
| "step t Key st = read_key t st"
| "step TColon Colon st = Some (Value, st)"
| "step t Colon st = None"
| "step TComma CommaOrClose (InArray es # st) = Some (Value, InArray es # st)"
| "step TComma CommaOrClose (InObject ms # st) = Some (Key, InObject ms # st)"
| "step TRBrack CommaOrClose (InArray es # st) = deliver (JArray es) st"
| "step TRBrace CommaOrClose (InObject ms # st) = deliver (JObject ms) st"
| "step t CommaOrClose st = None"
| "step t (Finished v) st = None"

fun run :: "token list \<Rightarrow> expect \<Rightarrow> frame list \<Rightarrow> json option" where
  "run [] (Finished v) [] = Some v"
| "run [] e st = None"
| "run (t # ts) e st = (case step t e st of None \<Rightarrow> None | Some (e', st') \<Rightarrow> run ts e' st')"

text \<open>\<open>JSON.parse(text)\<close>; \<open>None\<close> when it throws a SyntaxError.\<close>

definition JSON_parse :: "string \<Rightarrow> json option" where
  "JSON_parse text = (case lex text of None \<Rightarrow> None | Some ts \<Rightarrow> run ts Value [])"

text \<open>
  \<open>data.name\<close> on a parsed value: the outer \<open>None\<close> is the TypeError that reading a
  property of null throws, \<open>Some None\<close> is undefined. An object gives the member of that
  name that comes last in the text; no other value, and no prototype, has a property
  \<open>content\<close> or \<open>stop\<close>.
\<close>

fun get_field :: "json \<Rightarrow> code_units \<Rightarrow> json option option" where
  "get_field JNull name = None"
| "get_field (JObject ms) name = Some (map_of (rev ms) name)"
| "get_field v name = Some None"

text \<open>
  The test of \<open>if (v)\<close>. A number is falsy when its double is zero: its decimal is zero,
  or its magnitude is at most \<open>2 ^ -1075\<close> and rounds to zero.
\<close>

fun truthy_json :: "json option \<Rightarrow> bool" where
  "truthy_json None = False"
| "truthy_json (Some JNull) = False"
| "truthy_json (Some (JBool b)) = b"
| "truthy_json (Some (JNumber m e)) =
     (m \<noteq> 0 \<and> (0 \<le> e \<or> 10 ^ nat (- e) < \<bar>m\<bar> * 2 ^ 1075))"
| "truthy_json (Some (JString us)) = (us \<noteq> [])"
| "truthy_json (Some (JArray es)) = True"
| "truthy_json (Some (JObject ms)) = True"

subsection \<open>The loop of \<open>streamGeneration\<close>\<close>

text \<open>\<open>s.split('\n')\<close>: the pieces between the newlines, one more than there are newlines.\<close>

function split_nl :: "string \<Rightarrow> string list" where
  "split_nl s =
     (case dropWhile (\<lambda>c. c \<noteq> CHR 0x0A) s of
        [] \<Rightarrow> [s]
      | c # rest \<Rightarrow> takeWhile (\<lambda>c. c \<noteq> CHR 0x0A) s # split_nl rest)"
  by pat_completeness auto
termination
proof (relation "measure length")
  fix s :: string and c rest
  assume "dropWhile (\<lambda>c. c \<noteq> CHR 0x0A) s = c # rest"
  then have "length (c # rest) \<le> length s"
    using length_dropWhile_le [of "\<lambda>c. c \<noteq> CHR 0x0A" s] by simp
  then show "(rest, s) \<in> measure length" by simp
qed simp

declare split_nl.simps [simp del]

text \<open>
  \<open>onToken\<close> is the callback of the caller. A call of it can throw, and the call is made
  inside the \<open>try\<close> of the loop, so the model takes the callback as the predicate
  \<open>throws\<close>: \<open>throws toks c\<close> holds when the call \<open>onToken(c)\<close>, made after the calls with
  the arguments \<open>toks\<close>, throws.
\<close>

type_synonym callback = "json list \<Rightarrow> json \<Rightarrow> bool"

text \<open>
  The body of the \<open>for\<close> loop for one line, given the arguments of the calls of \<open>onToken\<close>
  made so far: the arguments after the line, and whether the function has returned. The
  \<open>catch\<close> swallows a SyntaxError of \<open>JSON.parse\<close>, a TypeError of the property reads and
  whatever \<open>onToken\<close> throws; in each case the rest of the \<open>try\<close>, the test of \<open>data.stop\<close>
  included, is skipped and the loop goes on with the next line.
\<close>

definition handle_line :: "callback \<Rightarrow> string \<Rightarrow> json list \<Rightarrow> json list \<times> bool" where
  "handle_line throws line toks =
     (if prefix ''data: '' line then
        (case JSON_parse (drop 6 line) of
           None \<Rightarrow> (toks, False)
         | Some data \<Rightarrow>
             (case get_field data (units ''content'') of
                None \<Rightarrow> (toks, False)
              | Some content \<Rightarrow>
                  if truthy_json content \<and> throws toks (the content)
                  then (toks @ [the content], False)
                  else
                    (let toks' = (if truthy_json content then toks @ [the content] else toks)
                     in case get_field data (units ''stop'') of
                          None \<Rightarrow> (toks', False)
                        | Some stop \<Rightarrow> (toks', truthy_json stop))))
      else (toks, False))"

fun for_lines :: "callback \<Rightarrow> string list \<Rightarrow> json list \<Rightarrow> json list \<times> bool" where
  "for_lines throws [] toks = (toks, False)"
| "for_lines throws (line # lines) toks =
     (case handle_line throws line toks of
        (toks', True) \<Rightarrow> (toks', True)
      | (toks', False) \<Rightarrow> for_lines throws lines toks')"

text \<open>
  The \<open>while\<close> loop. The chunks are the texts that \<open>decoder.decode\<close> returns for the
  reads, in order, and the end of the list is the read that reports \<open>done\<close>. The result
  is the list of the arguments of the calls of \<open>onToken\<close> and whether the function
  returned at a stop.
\<close>

fun read_loop :: "callback \<Rightarrow> string \<Rightarrow> string list \<Rightarrow> json list \<Rightarrow> json list \<times> bool" where
  "read_loop throws buffer [] toks = (toks, False)"
| "read_loop throws buffer (v # chunks) toks =
     (let lines = split_nl (buffer @ v)
      in case for_lines throws (butlast lines) toks of
           (toks', True) \<Rightarrow> (toks', True)
         | (toks', False) \<Rightarrow> read_loop throws (last lines) chunks toks')"

record response =
  ok :: bool
  status :: nat
  body :: "string list"

datatype error = ServerReturned nat

text \<open>
  \<open>streamGeneration\<close>, given the callback and the response that \<open>fetch\<close> resolves to:
  the thrown error, or the arguments of the calls of \<open>onToken\<close> and whether a stop ended
  the call.
\<close>

definition streamGeneration :: "callback \<Rightarrow> response \<Rightarrow> error + json list \<times> bool" where
  "streamGeneration throws resp =
     (if \<not> ok resp then Inl (ServerReturned (status resp))
      else Inr (read_loop throws [] (body resp) []))"

text \<open>
  A frame is a line that begins with \<open>data: \<close>. It carries a stop indicator when the
  rest parses as an object whose \<open>stop\<close> is truthy, and it is malformed when \<open>JSON.parse\<close>
  rejects the rest.
\<close>

definition carries_stop :: "string \<Rightarrow> bool" where
  "carries_stop line \<longleftrightarrow>
     prefix ''data: '' line \<and>
     (case JSON_parse (drop 6 line) of
        Some (JObject ms) \<Rightarrow> truthy_json (map_of (rev ms) (units ''stop''))
      | _ \<Rightarrow> False)"

definition malformed :: "string \<Rightarrow> bool" where
  "malformed line \<longleftrightarrow> prefix ''data: '' line \<and> JSON_parse (drop 6 line) = None"

text \<open>A text that stops at a line boundary: empty, or ended by a newline.\<close>

definition ends_line :: "string \<Rightarrow> bool" where
  "ends_line s \<longleftrightarrow> s = [] \<or> last s = CHR 0x0A"



section \<open>Connection Lifecycle Manager: \<open>saveAISettings\<close> of the AI settings module\<close>

text \<open>
  The model follows the variant of the module with the retry loop (the source file kept
  without a name). The variant in src/modules/ai-settings.js stores the settings in the
  same place, and then makes one health request where this one makes up to 60. Of the Alpine app object it has the fields that \<open>saveAISettings\<close>
  reads or writes. An absent or empty string field is the empty string: the source only
  tests such fields for truthiness. The fields of the stored settings object carry a
  prime, \<open>mode'\<close> for \<open>mode\<close>. The temperature is a decimal \<open>(m, e)\<close> for \<open>m * 10 ^ e\<close>;
  the source only copies it.
\<close>

record settings =
  mode' :: string
  provider' :: string
  apiKey' :: string
  model' :: string
  endpoint' :: string
  temperature' :: "int \<times> int"
  maxTokens' :: nat
  useProviderDefaults' :: bool
  forceNonStreaming' :: bool

record model_info =
  model_id :: string
  model_name :: string

record app =
  aiMode :: string
  aiProvider :: string
  aiApiKey :: string
  aiModel :: string
  aiEndpoint :: string
  temperature :: "int \<times> int"
  maxTokens :: nat
  useProviderDefaults :: bool
  forceNonStreaming :: bool
  providerModels :: "string \<rightharpoonup> model_info list"
  showModelLoading :: bool
  loadingMessage :: string
  loadingProgress :: nat
  aiStatus :: string
  aiStatusText :: string
  showAISettings :: bool

text \<open>
  What a call can change: the app object, \<open>localStorage\<close> (under its one key the
  settings object, which the source stores as JSON text), the messages shown by \<open>alert\<close>,
  the URLs requested with \<open>fetch\<close>, the number of retry delays awaited, the messages of
  \<open>console.error\<close>, and whether the timer that hides the loading overlay has been set.
\<close>

record state =
  app :: app
  localStorage :: "string \<rightharpoonup> settings"
  alerts :: "string list"
  probes :: "string list"
  delays :: nat
  errors_logged :: "string list"
  hide_loading_set :: bool

text \<open>
  The answer to one health request: a response with \<open>ok\<close>, a response without it, or a
  rejected promise (the request failed, or the 5 second timer aborted it). The
  environment gives the answer to the \<open>k\<close>th request of a cycle to a URL. The translation
  function \<open>t\<close> of the application is a parameter.
\<close>

datatype probe = RespOk | RespNotOk | Rejected

function show_nat :: "nat \<Rightarrow> string" where
  "show_nat n =
     (if n < 10 then [char_of (48 + n)]
      else show_nat (n div 10) @ [char_of (48 + n mod 10)])"
  by pat_completeness auto
termination
  by (relation "measure id") auto

declare show_nat.simps [simp del]

definition settings_of :: "app \<Rightarrow> settings" where
  "settings_of a =
     \<lparr>mode' = aiMode a, provider' = aiProvider a, apiKey' = aiApiKey a, model' = aiModel a,
      endpoint' =
        (if aiEndpoint a \<noteq> [] then aiEndpoint a
         else if aiMode a = ''local'' then ''http://localhost:8080'' else []),
      temperature' = temperature a, maxTokens' = maxTokens a,
      useProviderDefaults' = useProviderDefaults a,
      forceNonStreaming' = forceNonStreaming a\<rparr>"

text \<open>
  The \<open>while\<close> loop of the local mode, from the value of \<open>attempt\<close> on: the final
  \<open>attempt\<close>, \<open>connected\<close> and the state. \<open>Math.floor(50 + (attempt / maxRetries) * 45)\<close> is
  written in exact arithmetic; for \<open>maxRetries = 60\<close> the double computation gives the
  same integer at every attempt.
\<close>

function connect_loop ::
  "(string \<Rightarrow> nat \<Rightarrow> probe) \<Rightarrow> (string \<Rightarrow> string) \<Rightarrow> string \<Rightarrow> nat \<Rightarrow> nat \<Rightarrow> nat \<Rightarrow> state
     \<Rightarrow> nat \<times> bool \<times> state" where
  "connect_loop fetch t endpoint maxRetries retryDelay attempt s =
     (if attempt < maxRetries then
        (let attempt' = attempt + 1;
             progress = 50 + (attempt' * 45) div maxRetries;
             elapsed = (attempt' * retryDelay) div 1000;
             s1 = s\<lparr>app := (app s)
                        \<lparr>loadingProgress := progress,
                         loadingMessage :=
                           t ''ai.testingConnection'' @ '' ('' @ show_nat elapsed
                           @ ''s elapsed, attempt '' @ show_nat attempt' @ ''/''
                           @ show_nat maxRetries @ '')''\<rparr>,
                     probes := probes s @ [endpoint @ ''/health'']\<rparr>
         in case fetch (endpoint @ ''/health'') attempt' of
              RespOk \<Rightarrow>
                (attempt', True,
                 s1\<lparr>app := (app s1)
                         \<lparr>aiStatus := ''ready'', aiStatusText := t ''ai.readyLocal'',
                          loadingProgress := 100, loadingMessage := t ''ai.connected''\<rparr>,
                     hide_loading_set := True,
                     alerts := alerts s1
                       @ [t ''ai.connectedLocalPrefix'' @ show_nat elapsed
                          @ t ''ai.connectedLocalSuffix'']\<rparr>)
            | RespNotOk \<Rightarrow> connect_loop fetch t endpoint maxRetries retryDelay attempt' s1
            | Rejected \<Rightarrow>
                connect_loop fetch t endpoint maxRetries retryDelay attempt'
                  (if attempt' < maxRetries then s1\<lparr>delays := delays s1 + 1\<rparr> else s1))
      else (attempt, False, s))"
  by pat_completeness auto
termination
  by (relation "measure (\<lambda>(fetch, t, endpoint, maxRetries, retryDelay, attempt, s).
                           maxRetries - attempt)") auto

declare connect_loop.simps [simp del]

text \<open>
  The body of the outer \<open>try\<close> after the settings are stored: \<open>Inl\<close> is a thrown Error,
  with its message and the state at the throw.
\<close>

definition test_connection ::
  "(string \<Rightarrow> nat \<Rightarrow> probe) \<Rightarrow> (string \<Rightarrow> string) \<Rightarrow> state \<Rightarrow> string \<times> state + state" where
  "test_connection fetch t s =
     (if aiMode (app s) = ''local'' then
        (let endpoint = (if aiEndpoint (app s) \<noteq> [] then aiEndpoint (app s)
                         else ''http://localhost:8080'');
             maxRetries = 60;
             retryDelay = 3000;
             s1 = s\<lparr>app := (app s)\<lparr>loadingMessage := t ''ai.connectingLocal''\<rparr>\<rparr>
         in case connect_loop fetch t endpoint maxRetries retryDelay 0 s1 of
              (attempt, connected, s2) \<Rightarrow>
                if \<not> connected then
                  Inl (t ''ai.couldNotConnectPrefix''
                       @ show_nat ((attempt * retryDelay) div 1000)
                       @ t ''ai.couldNotConnectSuffix'', s2)
                else Inr s2)
      else if aiApiKey (app s) = [] then Inl (t ''ai.apiKeyRequired'', s)
      else if aiModel (app s) = [] then Inl (t ''ai.modelRequired'', s)
      else
        (let modelDisplayName =
               (case providerModels (app s) (aiProvider (app s)) of
                  None \<Rightarrow> aiModel (app s)
                | Some infos \<Rightarrow>
                    (case find (\<lambda>m. model_id m = aiModel (app s)) infos of
                       None \<Rightarrow> aiModel (app s)
                     | Some modelInfo \<Rightarrow> model_name modelInfo))
         in Inr (s\<lparr>app := (app s)
                       \<lparr>aiStatus := ''ready'',
                        aiStatusText := t ''ai.readyApiPrefix'' @ modelDisplayName
                                        @ t ''ai.readyApiSuffix'',
                        loadingProgress := 100\<rparr>,
                    hide_loading_set := True,
                    alerts := alerts s @ [t ''ai.apiSavedReady'']\<rparr>)))"

definition saveAISettings ::
  "(string \<Rightarrow> nat \<Rightarrow> probe) \<Rightarrow> (string \<Rightarrow> string) \<Rightarrow> state \<Rightarrow> state" where
  "saveAISettings fetch t s =
     (let s1 = s\<lparr>localStorage :=
                   (localStorage s)(''writingway:aiSettings'' \<mapsto> settings_of (app s))\<rparr>;
          s2 = s1\<lparr>app := (app s1)
                     \<lparr>showModelLoading := True, loadingMessage := t ''ai.testingConnection'',
                      loadingProgress := 50\<rparr>\<rparr>
      in case test_connection fetch t s2 of
           Inr s3 \<Rightarrow> s3\<lparr>app := (app s3)\<lparr>showAISettings := False\<rparr>\<rparr>
         | Inl (message, s3) \<Rightarrow>
             s3\<lparr>app := (app s3)
                    \<lparr>aiStatus := ''error'', aiStatusText := t ''ai.connectionFailed'',
                     showModelLoading := False\<rparr>,
                errors_logged := errors_logged s3 @ [''AI settings save/test failed:''],
                alerts := alerts s3
                  @ [t ''ai.connectionFailedPrefix''
                     @ (if message \<noteq> [] then message else ''Error'')]\<rparr>)"



subsection \<open>\<open>saveAISettings\<close> of src/modules/ai-settings.js\<close>

text \<open>
  The module file has the variant of \<open>saveAISettings\<close> without the retry loop; it is
  \<open>saveAISettings_module\<close> here. Its settings object has seven fields, so its state has a
  storage of its own; the fields of both carry \<open>m_\<close>. It makes no call of the translation
  function: its messages are literals. Two of them begin with the check mark U+2713,
  which lies outside the range of \<open>char\<close> and stands here as the three bytes of its UTF-8
  form.
\<close>

record module_settings =
  m_mode :: string
  m_provider :: string
  m_apiKey :: string
  m_model :: string
  m_endpoint :: string
  m_temperature :: "int \<times> int"
  m_maxTokens :: nat

record module_state =
  m_app :: app
  m_localStorage :: "string \<rightharpoonup> module_settings"
  m_alerts :: "string list"
  m_probes :: "string list"
  m_errors_logged :: "string list"
  m_hide_loading_set :: bool

definition check_mark :: string where
  "check_mark = [CHR 0xE2, CHR 0x9C, CHR 0x93]"

definition module_settings_of :: "app \<Rightarrow> module_settings" where
  "module_settings_of a =
     \<lparr>m_mode = aiMode a, m_provider = aiProvider a, m_apiKey = aiApiKey a, m_model = aiModel a,
      m_endpoint =
        (if aiEndpoint a \<noteq> [] then aiEndpoint a
         else if aiMode a = ''local'' then ''http://localhost:8080'' else []),
      m_temperature = temperature a, m_maxTokens = maxTokens a\<rparr>"

text \<open>
  The body of the \<open>try\<close> after the settings are stored. In local mode it makes one health
  request, the first of the cycle. \<open>Inl\<close> is a thrown error, with the text that
  \<open>e.message || e\<close> gives for it and the state at the throw; \<open>rejection\<close> is that text for
  the error of a rejected \<open>fetch\<close>.
\<close>

definition test_connection_module ::
  "(string \<Rightarrow> nat \<Rightarrow> probe) \<Rightarrow> string \<Rightarrow> module_state \<Rightarrow> string \<times> module_state + module_state"
  where
  "test_connection_module fetch rejection s =
     (if aiMode (m_app s) = ''local'' then
        (let endpoint = (if aiEndpoint (m_app s) \<noteq> [] then aiEndpoint (m_app s)
                         else ''http://localhost:8080'');
             s1 = s\<lparr>m_probes := m_probes s @ [endpoint @ ''/health'']\<rparr>
         in case fetch (endpoint @ ''/health'') 1 of
              RespOk \<Rightarrow>
                Inr (s1\<lparr>m_app := (m_app s1)
                             \<lparr>aiStatus := ''ready'', aiStatusText := ''AI Ready (Local)'',
                              loadingProgress := 100\<rparr>,
                         m_hide_loading_set := True,
                         m_alerts := m_alerts s1
                           @ [check_mark @ '' Connected to local server successfully!'']\<rparr>)
            | RespNotOk \<Rightarrow> Inl (''Local server not responding'', s1)
            | Rejected \<Rightarrow> Inl (rejection, s1))
      else if aiApiKey (m_app s) = [] then Inl (''API key is required'', s)
      else if aiModel (m_app s) = [] then Inl (''Model name is required'', s)
      else
        Inr (s\<lparr>m_app := (m_app s)
                    \<lparr>aiStatus := ''ready'',
                     aiStatusText := ''AI Ready ('' @ aiProvider (m_app s) @ '')'',
                     loadingProgress := 100\<rparr>,
                 m_hide_loading_set := True,
                 m_alerts := m_alerts s
                   @ [check_mark @ '' API settings saved! Ready to generate.'']\<rparr>))"

definition saveAISettings_module ::
  "(string \<Rightarrow> nat \<Rightarrow> probe) \<Rightarrow> string \<Rightarrow> module_state \<Rightarrow> module_state" where
  "saveAISettings_module fetch rejection s =
     (let s1 = s\<lparr>m_localStorage :=
                   (m_localStorage s)(''writingway:aiSettings'' \<mapsto> module_settings_of (m_app s))\<rparr>;
          s2 = s1\<lparr>m_app := (m_app s1)
                     \<lparr>showModelLoading := True, loadingMessage := ''Testing connection...'',
                      loadingProgress := 50\<rparr>\<rparr>
      in case test_connection_module fetch rejection s2 of
           Inr s3 \<Rightarrow> s3\<lparr>m_app := (m_app s3)\<lparr>showAISettings := False\<rparr>\<rparr>
         | Inl (text, s3) \<Rightarrow>
             s3\<lparr>m_app := (m_app s3)
                    \<lparr>aiStatus := ''error'', aiStatusText := ''Connection failed'',
                     showModelLoading := False\<rparr>,
                m_errors_logged := m_errors_logged s3 @ [''AI settings save/test failed:''],
                m_alerts := m_alerts s3 @ [''Connection failed: '' @ text]\<rparr>)"


section \<open>Inputs of the examples\<close>

definition empty_world :: world where
  "empty_world = \<lparr>console = []\<rparr>"

definition mara :: compendium_entry where
  "mara = \<lparr>ce_id = None, ce_title = Some ''Mara'', ce_body = Some ''the protagonist'',
            ce_description = None\<rparr>"

definition preview_example :: options where
  "preview_example =
     \<lparr>povCharacter = None, tense = None, pov = None,
      prosePrompt = Some '' Keep it terse. '', preview = True,
      compendiumEntries = Some [Some mara]\<rparr>"

definition full_example :: options where
  "full_example = preview_example\<lparr>preview := False\<rparr>"

definition blank_body_entry :: compendium_entry where
  "blank_body_entry =
     \<lparr>ce_id = None, ce_title = Some ''Harbour'', ce_body = Some [],
      ce_description = Some ''A port town.''\<rparr>"

definition split_frame :: "string list" where
  \<open>split_frame = [''data: {"content":"He'', ''llo"}\<newline>'']\<close>

definition hello_frame :: string where
  \<open>hello_frame = ''data: {"content":"Hello"}''\<close>

definition never_throws :: callback where
  "never_throws toks c = False"

definition throws_on_b :: callback where
  "throws_on_b toks c = (c = JString (units ''b''))"

definition stop_pre :: string where
  \<open>stop_pre = ''data: {"content":"a"}\<newline>''\<close>

definition stop_line :: string where
  \<open>stop_line = ''data: {"content":"b","stop":true}''\<close>

definition stop_rest :: string where
  \<open>stop_rest = ''data: {"content":"c"}\<newline>data: {"content":"d"}\<newline>''\<close>

definition stop_response :: response where
  \<open>stop_response =
     \<lparr>ok = True, status = 200,
      body = [''data: {"content":"a"}\<newline>data: {"content":"b","st'',
              ''op":true}\<newline>data: {"content":"c"}\<newline>'',
              ''data: {"content":"d"}\<newline>'']\<rparr>\<close>

definition bad_line :: string where
  "bad_line = ''data: {not json}''"

definition bad_rest :: string where
  \<open>bad_rest = ''data: {"content":"x"}\<newline>''\<close>

definition bad_response :: response where
  \<open>bad_response =
     \<lparr>ok = True, status = 200,
      body = [''data: {not'', '' json}\<newline>data: {"content":"x"}\<newline>'']\<rparr>\<close>

text \<open>The URL of the health requests of a local cycle.\<close>

definition health_url :: "app \<Rightarrow> string" where
  "health_url a =
     (if aiEndpoint a \<noteq> [] then aiEndpoint a else ''http://localhost:8080'') @ ''/health''"

definition local_app :: app where
  "local_app =
     \<lparr>aiMode = ''local'', aiProvider = ''anthropic'', aiApiKey = [], aiModel = [],
      aiEndpoint = [], temperature = (8, -1), maxTokens = 300, useProviderDefaults = False,
      forceNonStreaming = False, providerModels = Map.empty, showModelLoading = False,
      loadingMessage = [], loadingProgress = 0, aiStatus = ''loading'', aiStatusText = [],
      showAISettings = True\<rparr>"

definition fresh_state :: state where
  "fresh_state =
     \<lparr>app = local_app, localStorage = Map.empty, alerts = [], probes = [], delays = 0,
      errors_logged = [], hide_loading_set = False\<rparr>"

definition never_up :: "string \<Rightarrow> nat \<Rightarrow> probe" where
  "never_up url k = Rejected"

definition up_at_3 :: "string \<Rightarrow> nat \<Rightarrow> probe" where
  "up_at_3 url k = (if k = 3 then RespOk else Rejected)"

definition not_ok :: "string \<Rightarrow> nat \<Rightarrow> probe" where
  "not_ok url k = RespNotOk"

definition fresh_module_state :: module_state where
  "fresh_module_state =
     \<lparr>m_app = local_app, m_localStorage = Map.empty, m_alerts = [], m_probes = [],
      m_errors_logged = [], m_hide_loading_set = False\<rparr>"

definition t_key :: "string \<Rightarrow> string" where
  "t_key key = key"


section \<open>Properties of the Prompt Assembler\<close>

subsection \<open>Auxiliary facts\<close>

lemma prompt_split: "prompt beat sceneContext opts = prompt_head sceneContext opts @ beat_line beat"
  by (simp add: prompt_def prompt_head_def beat_line_def)

lemma marker_prefix_beat_line: "prefix ''\<newline>\<newline>BEAT TO EXPAND:'' (beat_line beat)"
  by (simp add: beat_line_def)

lemma indexOf_append_le:
  "prefix n s \<Longrightarrow> \<exists>i\<le>length a. indexOf (a @ s) n = Some i"
proof (induction a)
  case Nil
  then show ?case by (cases s) auto
next
  case (Cons x a)
  then obtain i where "i \<le> length a" "indexOf (a @ s) n = Some i" by auto
  then show ?case by auto
qed

lemma compendiumText_nonempty:
  "\<not> preview opts \<Longrightarrow> compendiumEntries opts = Some ces \<Longrightarrow> ces \<noteq> [] \<Longrightarrow>
   compendiumText opts = ''\<newline>\<newline>COMPENDIUM REFERENCES:\<newline>'' @ concat (map render_entry ces)"
  by (simp add: compendiumText_def)

lemma join_Cons: "zs \<noteq> [] \<Longrightarrow> join sep (x # zs) = x @ sep @ join sep zs"
  by (cases zs) simp_all

lemma join_replicate_snoc: "join sep (replicate n x @ [y]) = concat (replicate n (x @ sep)) @ y"
  by (induction n) (simp_all add: join_Cons)

lemma dropWhile_space_reps:
  "dropWhile is_space (concat (replicate n ''a '')) = concat (replicate n ''a '')"
  by (cases n) (simp_all add: is_space_def)

lemma split_ws_from_reps:
  "split_ws_from [] (concat (replicate n ''a '')) = replicate n ''a'' @ [[]]"
  by (induction n) (simp_all add: is_space_def dropWhile_space_reps)

lemma tokens_reps: "tokens (concat (replicate n ''a '')) = replicate n ''a''"
proof (induction n)
  case 0
  show ?case by (simp add: tokens.simps [of "[]"])
next
  case (Suc n)
  have sp: "tokens (CHR '' '' # concat (replicate n ''a '')) = tokens (concat (replicate n ''a ''))"
    by (simp add: tokens.simps [of "CHR '' '' # concat (replicate n ''a '')"]
          tokens.simps [of "concat (replicate n ''a '')"] is_space_def)
  show ?case
    by (simp add: tokens.simps [of "CHR ''a'' # CHR '' '' # concat (replicate n ''a '')"]
          is_space_def sp Suc)
qed

lemma tokens_Nil: "tokens [] = []"
  by (simp add: tokens.simps [of "[]"])

lemma tokens_dropWhile: "tokens (dropWhile is_space r) = tokens r"
  by (subst tokens.simps, subst (2) tokens.simps) simp

lemma tokens_word:
  assumes "w \<noteq> []" and "\<forall>c\<in>set w. \<not> is_space c" and "r = [] \<or> is_space (hd r)"
  shows "tokens (w @ r) = w # tokens r"
proof -
  obtain c cs where w: "w = c # cs" using assms(1) by (cases w) auto
  have c: "\<not> is_space c" and cs: "\<forall>x\<in>set cs. \<not> is_space x" using assms(2) w by auto
  have d: "dropWhile is_space ((c # cs) @ r) = c # (cs @ r)" using c by simp
  have t: "takeWhile (\<lambda>x. \<not> is_space x) (cs @ r) = cs"
    using cs assms(3) by (cases r) auto
  have e: "dropWhile (\<lambda>x. \<not> is_space x) (cs @ r) = r"
    using cs assms(3) by (cases r) auto
  show ?thesis
    unfolding w by (subst tokens.simps) (simp only: d t e list.case)
qed

lemma split_ws_from_tokens:
  "\<forall>c\<in>set cur. \<not> is_space c \<Longrightarrow> cur \<noteq> [] \<or> (s \<noteq> [] \<and> \<not> is_space (hd s)) \<Longrightarrow>
   s = [] \<or> \<not> is_space (last s) \<Longrightarrow> split_ws_from cur s = tokens (cur @ s)"
proof (induction cur s rule: split_ws_from.induct)
  case (1 cur)
  then show ?case using tokens_word [of cur "[]"] by (simp add: tokens_Nil)
next
  case (2 cur c cs)
  show ?case
  proof (cases "is_space c")
    case True
    then have cur: "cur \<noteq> []" using "2.prems"(2) by simp
    have lastc: "\<not> is_space (last (c # cs))" using "2.prems"(3) by simp
    then have cs: "cs \<noteq> []" using True by auto
    then have lcs: "\<not> is_space (last cs)" using lastc by simp
    have ex: "\<exists>x\<in>set cs. \<not> is_space x" using cs lcs last_in_set by blast
    then have dne: "dropWhile is_space cs \<noteq> []" by simp
    have hd: "\<not> is_space (hd (dropWhile is_space cs))" using dne by (rule hd_dropWhile)
    have la: "last (dropWhile is_space cs) = last cs"
      using dne last_appendR [of "dropWhile is_space cs" "takeWhile is_space cs"] by simp
    have ih: "split_ws_from [] (dropWhile is_space cs) = tokens ([] @ dropWhile is_space cs)"
      using "2.IH"(1) [OF True] dne hd la lcs by simp
    have "tokens (cur @ c # cs) = cur # tokens (c # cs)"
      using tokens_word [OF cur "2.prems"(1), of "c # cs"] True by simp
    also have "tokens (c # cs) = tokens (dropWhile is_space cs)"
      using tokens_dropWhile [of "c # cs"] True by simp
    finally show ?thesis using True ih by simp
  next
    case False
    have "split_ws_from (cur @ [c]) cs = tokens ((cur @ [c]) @ cs)"
      using "2.IH"(2) [OF False] "2.prems"(1,3) False by (cases "cs = []") auto
    then show ?thesis using False by simp
  qed
qed


subsection \<open>Determinism\<close>

text \<open>
  Claim C1. The prompt that \<open>buildPrompt\<close> returns is a function of \<open>beat\<close>, \<open>sceneContext\<close>
  and \<open>options\<close> alone: two calls with the same three arguments return the same string,
  whatever the state of the world (the console) each call starts in.
\<close>

theorem buildPrompt_deterministic:
  "fst (buildPrompt beat sceneContext opts w1) = fst (buildPrompt beat sceneContext opts w2)"
  by (simp add: buildPrompt_def Let_def split: option.splits)

subsection \<open>Truncation of the scene context\<close>

text \<open>
  Claim C2. The claim is that the context block holds the final \<open>min n 500\<close> tokens of a
  scene context of \<open>n\<close> tokens, joined by single spaces, so that a context of 500 tokens is
  kept whole. At the context of 500 tokens \<open>a\<close>, each followed by a space, the source
  keeps 499 of them and a space at the end, where the claim asks for all 500: the split
  at white space yields an empty last piece, and that piece takes one of the 500 places.
\<close>

theorem context_500_tokens_trailing_space:
  "contextWords (concat (replicate 500 ''a '')) = concat (replicate 499 ''a '')
   \<and> spec_contextWords (concat (replicate 500 ''a '')) = concat (replicate 499 ''a '') @ ''a''
   \<and> contextText (concat (replicate 500 ''a ''))
       \<noteq> ''\<newline>\<newline>CURRENT SCENE SO FAR:\<newline>'' @ spec_contextWords (concat (replicate 500 ''a ''))"
proof -
  let ?s = "concat (replicate 500 ''a '')"
  have ne: "?s \<noteq> []"
    by simp
  have "slice_last 500 (split_ws ?s) = replicate 499 ''a'' @ [[]]"
    by (simp add: split_ws_def split_ws_from_reps slice_last_def)
  then have c: "contextWords ?s = concat (replicate 499 ''a '')"
    using join_replicate_snoc [of "'' ''" 499 "''a''" "[]"] by (simp add: contextWords_def)
  have r: "replicate 500 ''a'' = replicate 499 ''a'' @ [''a'']"
    using replicate_append_same [of 499 "''a''"]
    by (simp add: replicate_Suc [symmetric] del: replicate_Suc)
  have s: "spec_contextWords ?s = concat (replicate 499 ''a '') @ ''a''"
    using join_replicate_snoc [of "'' ''" 499 "''a''" "''a''"]
    by (simp add: spec_contextWords_def tokens_reps Let_def r)
  have "length (contextWords ?s) \<noteq> length (spec_contextWords ?s)"
    by (simp add: c s)
  then have "contextWords ?s \<noteq> spec_contextWords ?s" by auto
  with ne c s show ?thesis by (simp add: contextText_def)
qed

text \<open>
  The empty pieces are the only difference: for a scene context that neither begins nor
  ends with white space the pieces of the split are the tokens, and the context block is
  the one of the specification.
\<close>

lemma context_of_trimmed_text:
  assumes "sceneContext \<noteq> []" and "\<not> is_space (hd sceneContext)"
    and "\<not> is_space (last sceneContext)"
  shows "contextWords sceneContext = spec_contextWords sceneContext"
proof -
  have "split_ws sceneContext = tokens sceneContext"
    using split_ws_from_tokens [of "[]" sceneContext] assms by (simp add: split_ws_def)
  then show ?thesis
    by (simp add: contextWords_def spec_contextWords_def slice_last_def Let_def min_def)
qed

subsection \<open>Preview mode\<close>

text \<open>
  Claim C6. With \<open>options.preview\<close> true the assembler renders no reference material and
  no marker line, even when compendium entries and a template are supplied: the prompt
  is the one built without any compendium entry, the reference block (the
  \<open>COMPENDIUM REFERENCES\<close> header and the bodies of the entries) is empty, the template
  block is the trimmed template after a blank line, without the start and end markers,
  and the prompt is the system block, the context block, that template block and the
  beat instruction, with nothing else.
\<close>

theorem preview_omits_references_and_markers:
  assumes "preview opts"
  shows "fst (buildPrompt beat sceneContext opts w)
           = fst (buildPrompt beat sceneContext (opts\<lparr>compendiumEntries := None\<rparr>) w)
         \<and> compendiumText opts = []
         \<and> proseTemplateText opts
             = (case prosePrompt opts of
                  None \<Rightarrow> []
                | Some p \<Rightarrow> if trim p \<noteq> [] then ''\<newline>\<newline>'' @ trim p else [])
         \<and> fst (buildPrompt beat sceneContext opts w)
             = ''<|im_start|>system\<newline>'' @ systemPrompt opts
               @ ''<|im_end|>\<newline><|im_start|>user\<newline>''
               @ contextText sceneContext @ proseTemplateText opts @ beat_line beat"
proof -
  have ct: "compendiumText opts = []"
    using assms by (simp add: compendiumText_def split: option.splits)
  have ct': "compendiumText (opts\<lparr>compendiumEntries := None\<rparr>) = []"
    by (simp add: compendiumText_def)
  have tr: "trim [] = []" by (simp add: trim_def)
  have pt: "proseTemplateText opts
             = (case prosePrompt opts of
                  None \<Rightarrow> []
                | Some p \<Rightarrow> if trim p \<noteq> [] then ''\<newline>\<newline>'' @ trim p else [])"
    using assms tr by (auto simp: proseTemplateText_def split: option.splits)
  have same: "prompt beat sceneContext (opts\<lparr>compendiumEntries := None\<rparr>)
                = prompt beat sceneContext opts"
    by (simp add: prompt_def systemPrompt_def povSentence_def povName_def tenseText_def
                  povText_def proseTemplateText_def split: option.splits)
  have r: "fst (buildPrompt beat sceneContext opts w) = prompt beat sceneContext opts"
    using ct by (simp add: buildPrompt_def Let_def)
  have r': "fst (buildPrompt beat sceneContext (opts\<lparr>compendiumEntries := None\<rparr>) w)
              = prompt beat sceneContext opts"
    using ct' same by (simp add: buildPrompt_def Let_def)
  show ?thesis
    using ct pt r r' by (simp add: prompt_split prompt_head_def)
qed

theorem preview_omits_references_and_markers_witness:
  "preview preview_example
   \<and> compendiumEntries preview_example = Some [Some mara]
   \<and> fst (buildPrompt ''She opens the door.'' ''It rained.'' preview_example empty_world)
       = fst (buildPrompt ''She opens the door.'' ''It rained.''
                (preview_example\<lparr>compendiumEntries := None\<rparr>) empty_world)
   \<and> compendiumText preview_example = []
   \<and> proseTemplateText preview_example = ''\<newline>\<newline>Keep it terse.''"
proof -
  have p: "preview preview_example" by (simp add: preview_example_def)
  have t: "trim '' Keep it terse. '' = ''Keep it terse.''"
    by (simp add: trim_def is_space_def)
  show ?thesis
    using preview_omits_references_and_markers
            [OF p, of "''She opens the door.''" "''It rained.''" empty_world] p t
    by (simp add: preview_example_def)
qed

subsection \<open>Place of the reference block\<close>

text \<open>
  Claim C7. In a call that is not a preview and has a non-empty list of compendium
  entries, the reference block (the header \<open>COMPENDIUM REFERENCES:\<close> and the rendered
  entries) is spliced in at the first \<open>BEAT TO EXPAND:\<close> marker of the prompt, and the
  beat instruction of the call, with the open assistant turn, comes after the block and
  ends the prompt: the block lies strictly before the beat instruction.
\<close>

theorem references_before_beat:
  assumes "\<not> preview opts" and "compendiumEntries opts = Some ces" and "ces \<noteq> []"
  shows "\<exists>i mid. indexOf (prompt beat sceneContext opts) ''\<newline>\<newline>BEAT TO EXPAND:'' = Some i
           \<and> drop i (prompt beat sceneContext opts) = mid @ beat_line beat
           \<and> compendiumText opts
               = ''\<newline>\<newline>COMPENDIUM REFERENCES:\<newline>'' @ concat (map render_entry ces)
           \<and> fst (buildPrompt beat sceneContext opts w)
               = take i (prompt beat sceneContext opts) @ compendiumText opts @ ''\<newline>''
                 @ mid @ beat_line beat"
proof -
  let ?p = "prompt beat sceneContext opts"
  let ?h = "prompt_head sceneContext opts"
  have ct: "compendiumText opts
              = ''\<newline>\<newline>COMPENDIUM REFERENCES:\<newline>'' @ concat (map render_entry ces)"
    using assms by (rule compendiumText_nonempty)
  then have ne: "compendiumText opts \<noteq> []" by simp
  obtain i where i: "i \<le> length ?h"
      "indexOf (?h @ beat_line beat) ''\<newline>\<newline>BEAT TO EXPAND:'' = Some i"
    using indexOf_append_le [OF marker_prefix_beat_line] by blast
  have idx: "indexOf ?p ''\<newline>\<newline>BEAT TO EXPAND:'' = Some i"
    using i(2) by (simp only: prompt_split)
  have dr: "drop i ?p = drop i ?h @ beat_line beat"
    using i(1) by (simp add: prompt_split)
  have "fst (buildPrompt beat sceneContext opts w)
          = take i ?p @ compendiumText opts @ ''\<newline>'' @ drop i ?p"
    using ne idx by (simp add: buildPrompt_def Let_def)
  with idx dr ct show ?thesis by metis
qed

theorem references_before_beat_witness:
  "\<not> preview full_example \<and> compendiumEntries full_example = Some [Some mara]
   \<and> [Some mara] \<noteq> []
   \<and> (\<exists>i mid.
         indexOf (prompt ''She opens the door.'' ''It rained.'' full_example)
           ''\<newline>\<newline>BEAT TO EXPAND:'' = Some i
         \<and> fst (buildPrompt ''She opens the door.'' ''It rained.'' full_example empty_world)
             = take i (prompt ''She opens the door.'' ''It rained.'' full_example)
               @ compendiumText full_example @ ''\<newline>'' @ mid
               @ beat_line ''She opens the door.'')"
proof -
  have a: "\<not> preview full_example"
    by (simp add: full_example_def preview_example_def)
  have b: "compendiumEntries full_example = Some [Some mara]"
    by (simp add: full_example_def preview_example_def)
  have c: "[Some mara] \<noteq> []" by simp
  from references_before_beat
         [OF a b c, of "''She opens the door.''" "''It rained.''" empty_world]
  have "\<exists>i mid.
         indexOf (prompt ''She opens the door.'' ''It rained.'' full_example)
           ''\<newline>\<newline>BEAT TO EXPAND:'' = Some i
         \<and> fst (buildPrompt ''She opens the door.'' ''It rained.'' full_example empty_world)
             = take i (prompt ''She opens the door.'' ''It rained.'' full_example)
               @ compendiumText full_example @ ''\<newline>'' @ mid
               @ beat_line ''She opens the door.''"
    by blast
  with a b c show ?thesis by blast
qed

subsection \<open>Body of a rendered entry\<close>

text \<open>
  Claim C8, as stated, makes the fallback chain of the body equal to
  \<open>body ?? description ?? ""\<close>. It is not: for an entry whose body is the empty string and
  whose description is not, the source renders the description, and the nullish chain
  gives the empty body.
\<close>

theorem entry_body_nullish_counterexample:
  "entry_body blank_body_entry = ''A port town.''
   \<and> spec_entry_body blank_body_entry = []"
  by (simp add: blank_body_entry_def entry_body_def spec_entry_body_def js_or_def truthy_def
        to_text_def nullish_def)

text \<open>
  Claim C8, amended. The block of an entry holds, under its title line, the body of the
  entry when that is a non-empty string, otherwise its description when that is a
  non-empty string, otherwise the empty string: the chain of \<open>body || description || ""\<close>.
\<close>

theorem entry_body_fallback:
  "render_entry (Some ce)
     = ''\<newline>-- '' @ entry_title ce @ '' --\<newline>'' @ entry_body ce @ ''\<newline>''
   \<and> entry_body ce
       = to_text (js_or (js_or (ce_body ce) (ce_description ce)) (Some []))
   \<and> entry_body ce
       = (if truthy (ce_body ce) then the (ce_body ce)
          else if truthy (ce_description ce) then the (ce_description ce) else [])"
  by (auto simp: render_entry_def entry_body_def js_or_def truthy_def to_text_def
           split: option.splits)

section \<open>Properties of the Stream Decoder\<close>

subsection \<open>Auxiliary facts: lines of a text, and the loop over the chunks\<close>

lemma split_nl_no_nl: "CHR 0x0A \<notin> set a \<Longrightarrow> split_nl a = [a]"
proof -
  assume "CHR 0x0A \<notin> set a"
  then have d: "dropWhile (\<lambda>c. c \<noteq> CHR 0x0A) a = []" by auto
  show ?thesis by (subst split_nl.simps) (simp only: d list.case)
qed

lemma split_nl_cut: 
  assumes "CHR 0x0A \<notin> set a"
  shows "split_nl (a @ CHR 0x0A # b) = a # split_nl b"
proof -
  have d: "dropWhile (\<lambda>c. c \<noteq> CHR 0x0A) (a @ CHR 0x0A # b) = CHR 0x0A # b"
    using assms by (auto simp: dropWhile_append3)
  have t: "takeWhile (\<lambda>c. c \<noteq> CHR 0x0A) (a @ CHR 0x0A # b) = a"
    using assms by (auto simp: takeWhile_tail)
  show ?thesis
    by (subst split_nl.simps) (simp only: d t list.case)
qed

lemma split_nl_nonempty: "split_nl s \<noteq> []"
  by (subst split_nl.simps) (simp split: list.splits)

lemma split_nl_append:
  "split_nl (x @ y) = butlast (split_nl x) @ split_nl (last (split_nl x) @ y)"
proof (induction x rule: split_nl.induct)
  case (1 s)
  show ?case
  proof (cases "dropWhile (\<lambda>c. c \<noteq> CHR 0x0A) s")
    case Nil
    then have "CHR 0x0A \<notin> set s" by auto
    then show ?thesis by (simp add: split_nl_no_nl)
  next
    case (Cons c rest)
    then have c: "c = CHR 0x0A" using hd_dropWhile [of "\<lambda>c. c \<noteq> CHR 0x0A" s] by simp
    let ?a = "takeWhile (\<lambda>c. c \<noteq> CHR 0x0A) s"
    have s: "s = ?a @ CHR 0x0A # rest"
      using Cons c takeWhile_dropWhile_id [of "\<lambda>c. c \<noteq> CHR 0x0A" s] by simp
    have a: "CHR 0x0A \<notin> set ?a" by (auto dest: set_takeWhileD)
    have ih: "split_nl (rest @ y) = butlast (split_nl rest) @ split_nl (last (split_nl rest) @ y)"
      using "1.IH" [OF Cons] .
    have l: "split_nl s = ?a # split_nl rest"
      using split_nl_cut [OF a, of rest] s by simp
    have "split_nl (s @ y) = ?a # split_nl (rest @ y)"
    proof -
      have "s @ y = (?a @ CHR 0x0A # rest) @ y" using s by (rule arg_cong)
      then have "s @ y = ?a @ CHR 0x0A # (rest @ y)" by simp
      then show ?thesis using split_nl_cut [OF a, of "rest @ y"] by (simp only:)
    qed
    then show ?thesis
      using ih l split_nl_nonempty [of rest] by simp
  qed
qed

lemma last_split_nl_no_nl: "CHR 0x0A \<notin> set (last (split_nl s))"
proof (induction s rule: split_nl.induct)
  case (1 s)
  show ?case
  proof (cases "dropWhile (\<lambda>c. c \<noteq> CHR 0x0A) s")
    case Nil
    then have "CHR 0x0A \<notin> set s" by auto
    then show ?thesis by (simp add: split_nl_no_nl)
  next
    case (Cons c rest)
    then show ?thesis
      using "1.IH" [OF Cons] split_nl_nonempty [of rest]
      by (subst split_nl.simps) simp
  qed
qed

lemma for_lines_append:
  "for_lines thr (xs @ ys) toks =
     (case for_lines thr xs toks of
        (toks', True) \<Rightarrow> (toks', True)
      | (toks', False) \<Rightarrow> for_lines thr ys toks')"
  by (induction xs arbitrary: toks) (auto split: prod.splits bool.splits)

lemma read_loop_lines:
  "CHR 0x0A \<notin> set buffer \<Longrightarrow>
   read_loop thr buffer chunks toks = for_lines thr (butlast (split_nl (buffer @ concat chunks))) toks"
proof (induction chunks arbitrary: buffer toks)
  case Nil
  then show ?case by (simp add: split_nl_no_nl)
next
  case (Cons v chunks)
  let ?lines = "split_nl (buffer @ v)"
  have sp: "split_nl (buffer @ v @ concat chunks)
              = butlast ?lines @ split_nl (last ?lines @ concat chunks)"
    using split_nl_append [of "buffer @ v" "concat chunks"] by simp
  have bl: "butlast (split_nl (buffer @ concat (v # chunks)))
              = butlast ?lines @ butlast (split_nl (last ?lines @ concat chunks))"
    by (simp add: sp butlast_append split_nl_nonempty)
  have ih: "read_loop thr (last ?lines) chunks t
              = for_lines thr (butlast (split_nl (last ?lines @ concat chunks))) t" for t
    by (rule Cons.IH) (rule last_split_nl_no_nl)
  show ?case
    by (simp only: bl for_lines_append read_loop.simps Let_def ih)
qed

lemma last_split_nl_ends_line: "ends_line pre \<Longrightarrow> last (split_nl pre) = []"
proof (cases "pre = []")
  case True
  then show ?thesis by (simp add: split_nl_no_nl)
next
  case False
  assume "ends_line pre"
  with False have "pre = butlast pre @ [CHR 0x0A]"
    using append_butlast_last_id [of pre] by (simp add: ends_line_def)
  then have "split_nl pre
      = butlast (split_nl (butlast pre)) @ split_nl (last (split_nl (butlast pre)) @ [CHR 0x0A])"
    using split_nl_append [of "butlast pre" "[CHR 0x0A]"] by simp
  moreover have "split_nl (last (split_nl (butlast pre)) @ [CHR 0x0A])
      = [last (split_nl (butlast pre)), []]"
    using split_nl_cut [OF last_split_nl_no_nl, of "butlast pre" "[]"] by (simp add: split_nl_no_nl)
  ultimately show ?thesis by simp
qed

lemma lines_around_frame:
  assumes "ends_line pre" and "CHR 0x0A \<notin> set l"
  shows "butlast (split_nl (pre @ l @ CHR 0x0A # rest))
           = butlast (split_nl pre) @ l # butlast (split_nl rest)"
proof -
  have "split_nl (pre @ l @ CHR 0x0A # rest)
          = butlast (split_nl pre) @ split_nl (l @ CHR 0x0A # rest)"
    using split_nl_append [of pre "l @ CHR 0x0A # rest"] last_split_nl_ends_line [OF assms(1)]
    by simp
  also have "split_nl (l @ CHR 0x0A # rest) = l # split_nl rest"
    by (rule split_nl_cut [OF assms(2)])
  finally show ?thesis
    by (simp add: butlast_append split_nl_nonempty)
qed

lemma handle_line_stop:
  "carries_stop l \<Longrightarrow> \<forall>h c. \<not> thr h c \<Longrightarrow> snd (handle_line thr l toks)"
  by (auto simp: carries_stop_def handle_line_def Let_def split: option.splits json.splits)

lemma handle_line_malformed: "malformed l \<Longrightarrow> handle_line thr l toks = (toks, False)"
  by (simp add: malformed_def handle_line_def)

lemma returned_cases:
  "(case p of (toks', True) \<Rightarrow> (toks', True) | (toks', False) \<Rightarrow> (toks', False)) = p"
  by (simp split: prod.splits bool.splits)

lemma for_lines_stop_cut:
  assumes "carries_stop l" and "\<forall>h c. \<not> thr h c"
  shows "for_lines thr (xs @ l # ys) toks = for_lines thr (xs @ [l]) toks"
    and "snd (for_lines thr (xs @ l # ys) toks)"
proof -
  have h: "for_lines thr (l # zs) t = handle_line thr l t" for zs t
    using handle_line_stop [where toks = t and thr = thr, OF assms] by (cases "handle_line thr l t") auto
  show "for_lines thr (xs @ l # ys) toks = for_lines thr (xs @ [l]) toks"
    by (simp only: for_lines_append h)
  show "snd (for_lines thr (xs @ l # ys) toks)"
  proof (cases "for_lines thr xs toks")
    case (Pair t r)
    then show ?thesis
      using handle_line_stop [where toks = t and thr = thr, OF assms]
      by (cases r; cases "handle_line thr l t") (auto simp: for_lines_append h)
  qed
qed

lemma for_lines_malformed_skip:
  "malformed l \<Longrightarrow> for_lines thr (xs @ l # ys) toks = for_lines thr (xs @ ys) toks"
  by (simp add: for_lines_append handle_line_malformed split: prod.splits bool.splits)

text \<open>
  The calls of \<open>onToken\<close> depend on the chunks only through their concatenation: the loop
  handles, in order, the lines that a newline ends in the whole text.
\<close>

lemma streamGeneration_lines:
  "ok resp \<Longrightarrow>
   streamGeneration thr resp
     = Inr (for_lines thr (butlast (split_nl (concat (body resp)))) [])"
  by (simp add: streamGeneration_def read_loop_lines)

subsection \<open>Stop frames\<close>

text \<open>
  With a callback that never throws, a stop frame ends the call: let the text of the
  chunks, however it is cut into chunks, hold a line that is a frame carrying a stop
  indicator. Then the call returns at a stop, and it makes the calls of \<open>onToken\<close> that it
  makes when the stream ends right after that line.
\<close>

lemma stop_frame_ends_decoding:
  assumes "ok resp" and "concat (body resp) = pre @ l @ ''\<newline>'' @ rest"
    and "ends_line pre" and "CHR 0x0A \<notin> set l" and "carries_stop l"
    and nt: "\<forall>h c. \<not> thr h c"
  shows "streamGeneration thr resp
           = streamGeneration thr (resp\<lparr>body := [pre @ l @ ''\<newline>'']\<rparr>)
         \<and> (\<exists>toks. streamGeneration thr resp = Inr (toks, True))"
proof -
  have a: "read_loop thr [] (body resp) []
             = for_lines thr (butlast (split_nl pre) @ l # butlast (split_nl rest)) []"
    using assms(2) lines_around_frame [OF assms(3,4), of rest] by (simp add: read_loop_lines)
  have b: "read_loop thr [] [pre @ l @ ''\<newline>''] []
             = for_lines thr (butlast (split_nl pre) @ [l]) []"
    using lines_around_frame [OF assms(3,4), of "[]"]
    by (simp add: read_loop_lines split_nl_no_nl returned_cases)
  have c: "for_lines thr (butlast (split_nl pre) @ l # butlast (split_nl rest)) []
             = for_lines thr (butlast (split_nl pre) @ [l]) []"
    by (rule for_lines_stop_cut(1) [OF assms(5) nt])
  have d: "snd (read_loop thr [] (body resp) [])"
    using a for_lines_stop_cut(2) [OF assms(5) nt] by simp
  have "streamGeneration thr resp
          = streamGeneration thr (resp\<lparr>body := [pre @ l @ ''\<newline>'']\<rparr>)"
    using assms(1) a b c by (simp add: streamGeneration_def)
  moreover have "\<exists>toks. streamGeneration thr resp = Inr (toks, True)"
    using assms(1) d
    by (cases "read_loop thr [] (body resp) []") (simp add: streamGeneration_def)
  ultimately show ?thesis by blast
qed

text \<open>
  Claim C3. The claim is that, for every sequence of chunks, a decoded frame that carries
  a stop indicator ends the consumption at once, and nothing after it reaches the caller.
  The source calls \<open>onToken\<close> inside the \<open>try\<close> whose \<open>catch\<close> is written for the errors of
  \<open>JSON.parse\<close>, and tests \<open>data.stop\<close> after the call. For the chunks of \<open>stop_response\<close>, whose
  second frame carries the content \<open>b\<close> and a stop, a callback that throws on \<open>b\<close> makes the
  loop skip the test: the frames \<open>c\<close> and \<open>d\<close> after the stop frame reach the caller and the
  call ends with the stream, not at the stop. With a callback that returns, the same
  chunks end at the stop after \<open>a\<close> and \<open>b\<close>.
\<close>

theorem throwing_callback_misses_stop:
  "carries_stop stop_line
   \<and> concat (body stop_response) = stop_pre @ stop_line @ ''\<newline>'' @ stop_rest
   \<and> streamGeneration throws_on_b stop_response
       = Inr ([JString (units ''a''), JString (units ''b''), JString (units ''c''),
               JString (units ''d'')], False)
   \<and> streamGeneration never_throws stop_response
       = Inr ([JString (units ''a''), JString (units ''b'')], True)"
proof -
  have a: "carries_stop stop_line" by code_simp
  have b: "concat (body stop_response) = stop_pre @ stop_line @ ''\<newline>'' @ stop_rest"
    by (simp add: stop_response_def stop_pre_def stop_line_def stop_rest_def)
  have c: "streamGeneration throws_on_b stop_response
       = Inr ([JString (units ''a''), JString (units ''b''), JString (units ''c''),
               JString (units ''d'')], False)"
    by code_simp
  have d: "streamGeneration never_throws stop_response
       = Inr ([JString (units ''a''), JString (units ''b'')], True)"
    by code_simp
  from a b c d show ?thesis by blast
qed

subsection \<open>A frame split between two chunks\<close>

text \<open>
  Claim C4. For the two chunks \<open>data: {"content":"He\<close> and \<open>llo"}\<close> with its newline, the
  call makes one call of \<open>onToken\<close>, with the text \<open>Hello\<close>, and ends with the stream,
  whatever the callback does.
\<close>

theorem split_frame_is_reassembled:
  "streamGeneration thr \<lparr>ok = True, status = 200, body = split_frame\<rparr>
     = Inr ([JString (units ''Hello'')], False)"
proof -
  have l: "butlast (split_nl (concat split_frame)) = [hello_frame]"
    by code_simp
  have p: "prefix ''data: '' hello_frame" by code_simp
  have j: "JSON_parse (drop 6 hello_frame)
             = Some (JObject [(units ''content'', JString (units ''Hello''))])"
    by code_simp
  have c: "map_of (rev [(units ''content'', JString (units ''Hello''))]) (units ''content'')
             = Some (JString (units ''Hello''))"
    by simp
  have n: "units ''stop'' \<noteq> units ''content''" by (simp add: units_def)
  have u: "units ''Hello'' \<noteq> []" by (simp add: units_def)
  have h: "handle_line thr hello_frame [] = ([JString (units ''Hello'')], False)"
    by (simp add: handle_line_def p j c n u)
  show ?thesis
    by (simp add: streamGeneration_lines l h)
qed

subsection \<open>Malformed frames\<close>

text \<open>
  Claim C5. Let the text of the chunks hold a line that is a malformed frame: it begins
  with \<open>data: \<close> and \<open>JSON.parse\<close> rejects the rest. Then, whatever the callback does, the
  call throws nothing, the line leaves the tokens as they are, and the call makes the
  calls of \<open>onToken\<close> that it makes for the text without that line: the frames after it
  are decoded as before.
\<close>

theorem malformed_frame_is_skipped:
  assumes "ok resp" and "concat (body resp) = pre @ l @ ''\<newline>'' @ rest"
    and "ends_line pre" and "CHR 0x0A \<notin> set l" and "malformed l"
  shows "streamGeneration thr resp = streamGeneration thr (resp\<lparr>body := [pre @ rest]\<rparr>)
         \<and> (\<exists>r. streamGeneration thr resp = Inr r)
         \<and> handle_line thr l toks = (toks, False)"
proof -
  have a: "read_loop thr [] (body resp) []
             = for_lines thr (butlast (split_nl pre) @ l # butlast (split_nl rest)) []"
    using assms(2) lines_around_frame [OF assms(3,4), of rest] by (simp add: read_loop_lines)
  have "split_nl (pre @ rest) = butlast (split_nl pre) @ split_nl rest"
    using split_nl_append [of pre rest] last_split_nl_ends_line [OF assms(3)] by simp
  then have b: "read_loop thr [] [pre @ rest] []
             = for_lines thr (butlast (split_nl pre) @ butlast (split_nl rest)) []"
    by (simp add: read_loop_lines butlast_append split_nl_nonempty returned_cases)
  show ?thesis
    using assms(1) a b for_lines_malformed_skip [OF assms(5)] handle_line_malformed [OF assms(5)]
    by (simp add: streamGeneration_def)
qed

theorem malformed_frame_is_skipped_witness:
  "ok bad_response
   \<and> concat (body bad_response) = [] @ bad_line @ ''\<newline>'' @ bad_rest
   \<and> ends_line [] \<and> CHR 0x0A \<notin> set bad_line \<and> malformed bad_line
   \<and> streamGeneration never_throws bad_response
       = streamGeneration never_throws (bad_response\<lparr>body := [[] @ bad_rest]\<rparr>)
   \<and> (\<exists>r. streamGeneration never_throws bad_response = Inr r)
   \<and> handle_line never_throws bad_line [] = ([], False)"
proof -
  have a: "ok bad_response" by (simp add: bad_response_def)
  have b: "concat (body bad_response) = [] @ bad_line @ ''\<newline>'' @ bad_rest"
    by (simp add: bad_response_def bad_line_def bad_rest_def)
  have c: "ends_line []" by (simp add: ends_line_def)
  have d: "CHR 0x0A \<notin> set bad_line" by (simp add: bad_line_def)
  have e: "malformed bad_line" by code_simp
  from malformed_frame_is_skipped [OF a b c d e, of never_throws "[]"] a b c d e
  show ?thesis by blast
qed

section \<open>Properties of the Connection Lifecycle Manager\<close>

subsection \<open>Auxiliary facts: the retry loop\<close>

lemma connect_loop_done:
  "\<not> attempt < M \<Longrightarrow> connect_loop f t ep M d attempt s = (attempt, False, s)"
  by (subst connect_loop.simps) simp

lemma connect_loop_ok:
  assumes "attempt < M" and "f (ep @ ''/health'') (Suc attempt) = RespOk"
  shows "\<exists>s'. connect_loop f t ep M d attempt s = (Suc attempt, True, s')
           \<and> probes s' = probes s @ [ep @ ''/health'']
           \<and> aiStatus (app s') = ''ready''
           \<and> localStorage s' = localStorage s
           \<and> errors_logged s' = errors_logged s
           \<and> alerts s' = alerts s @ [t ''ai.connectedLocalPrefix''
                 @ show_nat ((Suc attempt * d) div 1000) @ t ''ai.connectedLocalSuffix'']"
  using assms by (subst connect_loop.simps) (simp add: Let_def)

lemma connect_loop_retry:
  assumes "attempt < M" and "f (ep @ ''/health'') (Suc attempt) \<noteq> RespOk"
  shows "\<exists>s1. connect_loop f t ep M d attempt s = connect_loop f t ep M d (Suc attempt) s1
           \<and> probes s1 = probes s @ [ep @ ''/health'']
           \<and> aiStatus (app s1) = aiStatus (app s)
           \<and> localStorage s1 = localStorage s
           \<and> errors_logged s1 = errors_logged s
           \<and> alerts s1 = alerts s"
proof (cases "f (ep @ ''/health'') (Suc attempt)")
  case RespOk
  with assms show ?thesis by simp
next
  case RespNotOk
  with assms show ?thesis
    by (subst connect_loop.simps) (simp add: Let_def, rule exI, rule conjI, rule refl, simp)
next
  case Rejected
  with assms show ?thesis
    by (subst connect_loop.simps)
       (simp add: Let_def split del: if_split, rule exI, rule conjI, rule refl, simp)
qed

lemma connect_loop_all_fail:
  assumes "\<forall>k. attempt < k \<and> k \<le> M \<longrightarrow> f (ep @ ''/health'') k \<noteq> RespOk" and "attempt \<le> M"
  shows "\<exists>s'. connect_loop f t ep M d attempt s = (M, False, s')
           \<and> probes s' = probes s @ replicate (M - attempt) (ep @ ''/health'')
           \<and> aiStatus (app s') = aiStatus (app s)
           \<and> localStorage s' = localStorage s
           \<and> errors_logged s' = errors_logged s
           \<and> alerts s' = alerts s"
  using assms
proof (induction "M - attempt" arbitrary: attempt s)
  case 0
  then have "attempt = M" by simp
  then show ?case by (simp add: connect_loop_done)
next
  case (Suc n)
  then have lt: "attempt < M" by simp
  have nok: "f (ep @ ''/health'') (Suc attempt) \<noteq> RespOk"
    using Suc.prems(1) lt by simp
  obtain s1 where s1: "connect_loop f t ep M d attempt s = connect_loop f t ep M d (Suc attempt) s1"
      "probes s1 = probes s @ [ep @ ''/health'']" "aiStatus (app s1) = aiStatus (app s)"
      "localStorage s1 = localStorage s" "errors_logged s1 = errors_logged s"
      "alerts s1 = alerts s"
    using connect_loop_retry [where f = f and ep = ep and t = t and d = d and s = s, OF lt nok]
      by blast
  have n: "n = M - Suc attempt" using Suc.hyps(2) by simp
  have all: "\<forall>k. Suc attempt < k \<and> k \<le> M \<longrightarrow> f (ep @ ''/health'') k \<noteq> RespOk"
    using Suc.prems(1) by simp
  have le: "Suc attempt \<le> M" using lt by simp
  obtain s' where s': "connect_loop f t ep M d (Suc attempt) s1 = (M, False, s')"
      "probes s' = probes s1 @ replicate (M - Suc attempt) (ep @ ''/health'')"
      "aiStatus (app s') = aiStatus (app s1)" "localStorage s' = localStorage s1"
      "errors_logged s' = errors_logged s1" "alerts s' = alerts s1"
    using Suc.hyps(1) [OF n all le, of s1] by blast
  have r: "M - attempt = Suc (M - Suc attempt)" using lt by simp
  show ?case
    using s1 s' by (simp add: r)
qed

lemma connect_loop_first_ok:
  assumes "attempt < k" and "k \<le> M" and "f (ep @ ''/health'') k = RespOk"
    and "\<forall>j. attempt < j \<and> j < k \<longrightarrow> f (ep @ ''/health'') j \<noteq> RespOk"
  shows "\<exists>s'. connect_loop f t ep M d attempt s = (k, True, s')
           \<and> probes s' = probes s @ replicate (k - attempt) (ep @ ''/health'')
           \<and> aiStatus (app s') = ''ready''
           \<and> localStorage s' = localStorage s
           \<and> errors_logged s' = errors_logged s
           \<and> alerts s' = alerts s @ [t ''ai.connectedLocalPrefix''
                 @ show_nat ((k * d) div 1000) @ t ''ai.connectedLocalSuffix'']"
  using assms
proof (induction "k - attempt" arbitrary: attempt s)
  case 0
  then show ?case by simp
next
  case (Suc n)
  have lt: "attempt < M" using Suc.prems by simp
  show ?case
  proof (cases "k = Suc attempt")
    case True
    have r: "k - attempt = Suc 0" using True by simp
    show ?thesis
      using connect_loop_ok [where f = f and ep = ep and t = t and d = d and s = s, OF lt]
        Suc.prems(3) True by (simp add: r)
  next
    case False
    then have lt': "Suc attempt < k" using Suc.prems(1) by simp
    have nok: "f (ep @ ''/health'') (Suc attempt) \<noteq> RespOk"
      using Suc.prems(4) lt' by simp
    obtain s1 where s1: "connect_loop f t ep M d attempt s = connect_loop f t ep M d (Suc attempt) s1"
        "probes s1 = probes s @ [ep @ ''/health'']" "aiStatus (app s1) = aiStatus (app s)"
        "localStorage s1 = localStorage s" "errors_logged s1 = errors_logged s"
        "alerts s1 = alerts s"
      using connect_loop_retry [where f = f and ep = ep and t = t and d = d and s = s, OF lt nok]
      by blast
    have n: "n = k - Suc attempt" using Suc.hyps(2) by simp
    have all: "\<forall>j. Suc attempt < j \<and> j < k \<longrightarrow> f (ep @ ''/health'') j \<noteq> RespOk"
      using Suc.prems(4) by simp
    obtain s' where s': "connect_loop f t ep M d (Suc attempt) s1 = (k, True, s')"
        "probes s' = probes s1 @ replicate (k - Suc attempt) (ep @ ''/health'')"
        "aiStatus (app s') = ''ready''" "localStorage s' = localStorage s1"
        "errors_logged s' = errors_logged s1"
        "alerts s' = alerts s1 @ [t ''ai.connectedLocalPrefix''
                 @ show_nat ((k * d) div 1000) @ t ''ai.connectedLocalSuffix'']"
      using Suc.hyps(1) [OF n lt' Suc.prems(2,3) all, of s1] by blast
    have r: "k - attempt = Suc (k - Suc attempt)" using lt' by simp
    show ?thesis
      using s1 s' by (simp add: r)
  qed
qed

lemma connect_loop_frame:
  "\<exists>a c s' n. connect_loop f t ep M d attempt s = (a, c, s')
     \<and> n \<le> M - attempt
     \<and> probes s' = probes s @ replicate n (ep @ ''/health'')
     \<and> localStorage s' = localStorage s
     \<and> (c \<longrightarrow> aiStatus (app s') = ''ready'')"
proof (induction "M - attempt" arbitrary: attempt s)
  case 0
  then have "\<not> attempt < M" by simp
  then show ?case by (auto simp: connect_loop_done)
next
  case (Suc n)
  then have lt: "attempt < M" by simp
  show ?case
  proof (cases "f (ep @ ''/health'') (Suc attempt) = RespOk")
    case True
    obtain s' where "connect_loop f t ep M d attempt s = (Suc attempt, True, s')"
        "probes s' = probes s @ replicate (Suc 0) (ep @ ''/health'')"
        "localStorage s' = localStorage s" "aiStatus (app s') = ''ready''"
      using connect_loop_ok [where f = f and ep = ep and t = t and d = d and s = s, OF lt True]
      by auto
    moreover have "Suc 0 \<le> M - attempt" using lt by simp
    ultimately show ?thesis by blast
  next
    case False
    obtain s1 where s1: "connect_loop f t ep M d attempt s = connect_loop f t ep M d (Suc attempt) s1"
        "probes s1 = probes s @ [ep @ ''/health'']" "localStorage s1 = localStorage s"
      using connect_loop_retry [where f = f and ep = ep and t = t and d = d and s = s, OF lt]
        False by blast
    have n: "n = M - Suc attempt" using Suc.hyps(2) by simp
    obtain a c s' m where s': "connect_loop f t ep M d (Suc attempt) s1 = (a, c, s')"
        "m \<le> M - Suc attempt" "probes s' = probes s1 @ replicate m (ep @ ''/health'')"
        "localStorage s' = localStorage s1" "c \<longrightarrow> aiStatus (app s') = ''ready''"
      using Suc.hyps(1) [OF n, of s1] by blast
    have "probes s' = probes s @ replicate (Suc m) (ep @ ''/health'')"
      using s1 s' by simp
    moreover have "Suc m \<le> M - attempt" using s'(2) lt by simp
    moreover have "connect_loop f t ep M d attempt s = (a, c, s')"
      using s1(1) s'(1) by simp
    moreover have "localStorage s' = localStorage s" using s1(3) s'(4) by simp
    ultimately show ?thesis using s'(5) by blast
  qed
qed

lemma show_nat_180: "show_nat 180 = ''180''"
  by code_simp

lemma test_connection_never_ok:
  assumes "aiMode (app s) = ''local''"
    and "\<forall>k. 1 \<le> k \<and> k \<le> 60 \<longrightarrow> fetch (health_url (app s)) k \<noteq> RespOk"
  shows "\<exists>s'. test_connection fetch t s
             = Inl (t ''ai.couldNotConnectPrefix'' @ ''180'' @ t ''ai.couldNotConnectSuffix'', s')
           \<and> probes s' = probes s @ replicate 60 (health_url (app s))
           \<and> localStorage s' = localStorage s
           \<and> errors_logged s' = errors_logged s
           \<and> alerts s' = alerts s"
proof -
  let ?ep = "if aiEndpoint (app s) \<noteq> [] then aiEndpoint (app s) else ''http://localhost:8080''"
  let ?s1 = "s\<lparr>app := (app s)\<lparr>loadingMessage := t ''ai.connectingLocal''\<rparr>\<rparr>"
  have u: "health_url (app s) = ?ep @ ''/health''" by (simp add: health_url_def)
  have all: "\<forall>k. 0 < k \<and> k \<le> 60 \<longrightarrow> fetch (?ep @ ''/health'') k \<noteq> RespOk"
    using assms(2) unfolding u by (simp add: Suc_le_eq)
  obtain s' where s': "connect_loop fetch t ?ep 60 3000 0 ?s1 = (60, False, s')"
      "probes s' = probes ?s1 @ replicate (60 - 0) (?ep @ ''/health'')"
      "localStorage s' = localStorage ?s1" "errors_logged s' = errors_logged ?s1"
      "alerts s' = alerts ?s1"
    using connect_loop_all_fail [where f = fetch and ep = ?ep and M = 60 and attempt = 0
            and t = t and d = 3000 and s = ?s1, OF all]
    by auto
  have "test_connection fetch t s
          = Inl (t ''ai.couldNotConnectPrefix'' @ ''180'' @ t ''ai.couldNotConnectSuffix'', s')"
    using assms(1) s'(1) by (simp add: test_connection_def Let_def show_nat_180)
  with s' u show ?thesis by simp
qed

lemma test_connection_first_ok:
  assumes "aiMode (app s) = ''local''"
    and "1 \<le> k" and "k \<le> 60" and "fetch (health_url (app s)) k = RespOk"
    and "\<forall>j. 1 \<le> j \<and> j < k \<longrightarrow> fetch (health_url (app s)) j \<noteq> RespOk"
  shows "\<exists>s'. test_connection fetch t s = Inr s'
           \<and> probes s' = probes s @ replicate k (health_url (app s))
           \<and> aiStatus (app s') = ''ready''
           \<and> localStorage s' = localStorage s
           \<and> errors_logged s' = errors_logged s"
proof -
  let ?ep = "if aiEndpoint (app s) \<noteq> [] then aiEndpoint (app s) else ''http://localhost:8080''"
  let ?s1 = "s\<lparr>app := (app s)\<lparr>loadingMessage := t ''ai.connectingLocal''\<rparr>\<rparr>"
  have u: "health_url (app s) = ?ep @ ''/health''" by (simp add: health_url_def)
  have k0: "0 < k" using assms(2) by simp
  have ok: "fetch (?ep @ ''/health'') k = RespOk" using assms(4) unfolding u .
  have all: "\<forall>j. 0 < j \<and> j < k \<longrightarrow> fetch (?ep @ ''/health'') j \<noteq> RespOk"
    using assms(5) unfolding u by (simp add: Suc_le_eq)
  obtain s' where s': "connect_loop fetch t ?ep 60 3000 0 ?s1 = (k, True, s')"
      "probes s' = probes ?s1 @ replicate (k - 0) (?ep @ ''/health'')"
      "aiStatus (app s') = ''ready''"
      "localStorage s' = localStorage ?s1" "errors_logged s' = errors_logged ?s1"
    using connect_loop_first_ok [where f = fetch and ep = ?ep and M = 60 and attempt = 0
            and k = k and t = t and d = 3000 and s = ?s1, OF k0 assms(3) ok all]
    by auto
  have "test_connection fetch t s = Inr s'"
    using assms(1) s'(1) by (simp add: test_connection_def Let_def)
  with s' u show ?thesis by simp
qed

lemma test_connection_frame:
  "\<exists>s'. ((test_connection fetch t s = Inr s' \<and> aiStatus (app s') = ''ready'')
          \<or> (\<exists>m. test_connection fetch t s = Inl (m, s')))
         \<and> localStorage s' = localStorage s
         \<and> (aiMode (app s) = ''local'' \<longrightarrow>
              (\<exists>n\<le>60. probes s' = probes s @ replicate n (health_url (app s))))"
proof (cases "aiMode (app s) = ''local''")
  case True
  let ?ep = "if aiEndpoint (app s) \<noteq> [] then aiEndpoint (app s) else ''http://localhost:8080''"
  let ?s1 = "s\<lparr>app := (app s)\<lparr>loadingMessage := t ''ai.connectingLocal''\<rparr>\<rparr>"
  have u: "health_url (app s) = ?ep @ ''/health''" by (simp add: health_url_def)
  obtain a c s' n where s': "connect_loop fetch t ?ep 60 3000 0 ?s1 = (a, c, s')"
      "n \<le> 60 - 0" "probes s' = probes ?s1 @ replicate n (?ep @ ''/health'')"
      "localStorage s' = localStorage ?s1" "c \<longrightarrow> aiStatus (app s') = ''ready''"
    using connect_loop_frame [of fetch t ?ep 60 3000 0 ?s1] by blast
  have "(test_connection fetch t s = Inr s' \<and> aiStatus (app s') = ''ready'')
        \<or> (\<exists>m. test_connection fetch t s = Inl (m, s'))"
    using True s'(1,5) by (cases c) (simp_all add: test_connection_def Let_def)
  moreover have "\<exists>n\<le>60. probes s' = probes s @ replicate n (health_url (app s))"
    using s'(2,3) u by auto
  ultimately show ?thesis using s'(4) by auto
next
  case False
  then show ?thesis
    by (auto simp: test_connection_def Let_def)
qed

lemma saveAISettings_unfold:
  "saveAISettings fetch t s =
     (case test_connection fetch t
             (s\<lparr>localStorage :=
                   (localStorage s)(''writingway:aiSettings'' \<mapsto> settings_of (app s)),
                app := (app s)\<lparr>showModelLoading := True,
                                loadingMessage := t ''ai.testingConnection'',
                                loadingProgress := 50\<rparr>\<rparr>) of
        Inr s3 \<Rightarrow> s3\<lparr>app := (app s3)\<lparr>showAISettings := False\<rparr>\<rparr>
      | Inl (message, s3) \<Rightarrow>
          s3\<lparr>app := (app s3)
                 \<lparr>aiStatus := ''error'', aiStatusText := t ''ai.connectionFailed'',
                  showModelLoading := False\<rparr>,
             errors_logged := errors_logged s3 @ [''AI settings save/test failed:''],
             alerts := alerts s3
               @ [t ''ai.connectionFailedPrefix''
                  @ (if message \<noteq> [] then message else ''Error'')]\<rparr>)"
  by (simp add: saveAISettings_def Let_def)


lemma saveAISettings_never_ok:
  assumes "aiMode (app s) = ''local''"
    and "\<forall>k. 1 \<le> k \<and> k \<le> 60 \<longrightarrow> fetch (health_url (app s)) k \<noteq> RespOk"
  shows "aiStatus (app (saveAISettings fetch t s)) = ''error''
         \<and> probes (saveAISettings fetch t s) = probes s @ replicate 60 (health_url (app s))
         \<and> alerts (saveAISettings fetch t s)
             = alerts s @ [t ''ai.connectionFailedPrefix'' @ t ''ai.couldNotConnectPrefix''
                           @ ''180'' @ t ''ai.couldNotConnectSuffix'']"
proof -
  let ?s2 = "s\<lparr>localStorage :=
                   (localStorage s)(''writingway:aiSettings'' \<mapsto> settings_of (app s)),
                app := (app s)\<lparr>showModelLoading := True,
                                loadingMessage := t ''ai.testingConnection'',
                                loadingProgress := 50\<rparr>\<rparr>"
  have m: "aiMode (app ?s2) = ''local''" using assms(1) by simp
  have u: "health_url (app ?s2) = health_url (app s)" by (simp add: health_url_def)
  have all: "\<forall>k. 1 \<le> k \<and> k \<le> 60 \<longrightarrow> fetch (health_url (app ?s2)) k \<noteq> RespOk"
    using assms(2) unfolding u .
  obtain s' where s': "test_connection fetch t ?s2
             = Inl (t ''ai.couldNotConnectPrefix'' @ ''180'' @ t ''ai.couldNotConnectSuffix'', s')"
      "probes s' = probes ?s2 @ replicate 60 (health_url (app ?s2))"
      "alerts s' = alerts ?s2"
    using test_connection_never_ok [where fetch = fetch and t = t and s = ?s2, OF m all] by blast
  show ?thesis
    using s' u by (simp add: saveAISettings_unfold)
qed

lemma saveAISettings_first_ok:
  assumes "aiMode (app s) = ''local''"
    and "1 \<le> k" and "k \<le> 60" and "fetch (health_url (app s)) k = RespOk"
    and "\<forall>j. 1 \<le> j \<and> j < k \<longrightarrow> fetch (health_url (app s)) j \<noteq> RespOk"
  shows "aiStatus (app (saveAISettings fetch t s)) = ''ready''
         \<and> probes (saveAISettings fetch t s) = probes s @ replicate k (health_url (app s))"
proof -
  let ?s2 = "s\<lparr>localStorage :=
                   (localStorage s)(''writingway:aiSettings'' \<mapsto> settings_of (app s)),
                app := (app s)\<lparr>showModelLoading := True,
                                loadingMessage := t ''ai.testingConnection'',
                                loadingProgress := 50\<rparr>\<rparr>"
  have m: "aiMode (app ?s2) = ''local''" using assms(1) by simp
  have u: "health_url (app ?s2) = health_url (app s)" by (simp add: health_url_def)
  have ok: "fetch (health_url (app ?s2)) k = RespOk" using assms(4) unfolding u .
  have all: "\<forall>j. 1 \<le> j \<and> j < k \<longrightarrow> fetch (health_url (app ?s2)) j \<noteq> RespOk"
    using assms(5) unfolding u .
  obtain s' where s': "test_connection fetch t ?s2 = Inr s'"
      "probes s' = probes ?s2 @ replicate k (health_url (app ?s2))"
      "aiStatus (app s') = ''ready''"
    using test_connection_first_ok [where fetch = fetch and t = t and s = ?s2 and k = k,
            OF m assms(2,3) ok all] by blast
  show ?thesis
    using s' u by (simp add: saveAISettings_unfold)
qed

lemma saveAISettings_probes_bound:
  assumes "aiMode (app s) = ''local''"
  shows "\<exists>n\<le>60. probes (saveAISettings fetch t s) = probes s @ replicate n (health_url (app s))"
proof -
  let ?s2 = "s\<lparr>localStorage :=
                   (localStorage s)(''writingway:aiSettings'' \<mapsto> settings_of (app s)),
                app := (app s)\<lparr>showModelLoading := True,
                                loadingMessage := t ''ai.testingConnection'',
                                loadingProgress := 50\<rparr>\<rparr>"
  have m: "aiMode (app ?s2) = ''local''" using assms(1) by simp
  have u: "health_url (app ?s2) = health_url (app s)" by (simp add: health_url_def)
  obtain s' n where s': "(test_connection fetch t ?s2 = Inr s' \<and> aiStatus (app s') = ''ready'')
                       \<or> (\<exists>m. test_connection fetch t ?s2 = Inl (m, s'))"
      "n \<le> 60" "probes s' = probes ?s2 @ replicate n (health_url (app ?s2))"
    using test_connection_frame [of fetch t ?s2] m by blast
  have "probes (saveAISettings fetch t s) = probes s'"
    using s'(1) by (auto simp: saveAISettings_unfold)
  with s'(2,3) u show ?thesis by auto
qed

subsection \<open>The local connection test\<close>

text \<open>
  Claim C9, as stated, speaks of the connection test of the local mode and cites both
  variants of \<open>saveAISettings\<close>. It fails for the variant of src/modules/ai-settings.js,
  which has no budget of attempts: it makes one health request. With a server that would
  answer the third request with \<open>ok\<close>, the call ends with the status \<open>error\<close> after the
  one request; with a server that always answers without \<open>ok\<close>, the call ends with the
  status \<open>error\<close> after one request and its message reports no elapsed time.
\<close>

theorem single_probe_variant_counterexample:
  "up_at_3 ''http://localhost:8080/health'' 3 = RespOk
   \<and> aiStatus (m_app (saveAISettings_module up_at_3 ''Failed to fetch'' fresh_module_state))
       = ''error''
   \<and> m_probes (saveAISettings_module up_at_3 ''Failed to fetch'' fresh_module_state)
       = [''http://localhost:8080/health'']
   \<and> aiStatus (m_app (saveAISettings_module not_ok ''Failed to fetch'' fresh_module_state))
       = ''error''
   \<and> m_probes (saveAISettings_module not_ok ''Failed to fetch'' fresh_module_state)
       = [''http://localhost:8080/health'']
   \<and> m_alerts (saveAISettings_module not_ok ''Failed to fetch'' fresh_module_state)
       = [''Connection failed: Local server not responding'']"
  by (simp add: saveAISettings_module_def test_connection_module_def Let_def up_at_3_def
        not_ok_def fresh_module_state_def local_app_def)

text \<open>
  Claim C9, amended: the claim for the variant of \<open>saveAISettings\<close> with the retry loop
  (the source file kept without a name). In local mode a call of it requests the health
  URL at most 60 times, the value of \<open>maxRetries\<close>. When none of the 60 requests is
  answered with \<open>ok\<close> (the response is not \<open>ok\<close>, the request fails, or its timer aborts
  it), the call makes exactly 60 requests and ends with the status \<open>error\<close> and an alert
  whose message reports 180 seconds elapsed. When the \<open>k\<close>th request is the first one
  answered with \<open>ok\<close>, the call makes exactly \<open>k\<close> requests and ends with the status
  \<open>ready\<close>.
\<close>

theorem local_test_probes_at_most_max:
  assumes "aiMode (app s) = ''local''"
  shows "(\<exists>n\<le>60. probes (saveAISettings fetch t s)
                     = probes s @ replicate n (health_url (app s)))
         \<and> ((\<forall>k. 1 \<le> k \<and> k \<le> 60 \<longrightarrow> fetch (health_url (app s)) k \<noteq> RespOk) \<longrightarrow>
              aiStatus (app (saveAISettings fetch t s)) = ''error''
              \<and> probes (saveAISettings fetch t s) = probes s @ replicate 60 (health_url (app s))
              \<and> alerts (saveAISettings fetch t s)
                  = alerts s @ [t ''ai.connectionFailedPrefix'' @ t ''ai.couldNotConnectPrefix''
                                @ ''180'' @ t ''ai.couldNotConnectSuffix''])
         \<and> (\<forall>k. 1 \<le> k \<and> k \<le> 60 \<and> fetch (health_url (app s)) k = RespOk
                 \<and> (\<forall>j. 1 \<le> j \<and> j < k \<longrightarrow> fetch (health_url (app s)) j \<noteq> RespOk) \<longrightarrow>
              aiStatus (app (saveAISettings fetch t s)) = ''ready''
              \<and> probes (saveAISettings fetch t s) = probes s @ replicate k (health_url (app s)))"
proof (intro conjI impI allI)
  show "\<exists>n\<le>60. probes (saveAISettings fetch t s) = probes s @ replicate n (health_url (app s))"
    by (rule saveAISettings_probes_bound [OF assms])
next
  assume h: "\<forall>k. 1 \<le> k \<and> k \<le> 60 \<longrightarrow> fetch (health_url (app s)) k \<noteq> RespOk"
  note r = saveAISettings_never_ok [where fetch = fetch and t = t and s = s, OF assms h]
  show "aiStatus (app (saveAISettings fetch t s)) = ''error''" using r by (rule conjunct1)
  show "probes (saveAISettings fetch t s) = probes s @ replicate 60 (health_url (app s))"
    using r by simp
  show "alerts (saveAISettings fetch t s)
          = alerts s @ [t ''ai.connectionFailedPrefix'' @ t ''ai.couldNotConnectPrefix''
                        @ ''180'' @ t ''ai.couldNotConnectSuffix'']"
    using r by simp
next
  fix k
  assume h: "1 \<le> k \<and> k \<le> 60 \<and> fetch (health_url (app s)) k = RespOk
             \<and> (\<forall>j. 1 \<le> j \<and> j < k \<longrightarrow> fetch (health_url (app s)) j \<noteq> RespOk)"
  then have h1: "1 \<le> k" and h2: "k \<le> 60" and h3: "fetch (health_url (app s)) k = RespOk"
    and h4: "\<forall>j. 1 \<le> j \<and> j < k \<longrightarrow> fetch (health_url (app s)) j \<noteq> RespOk"
    by simp_all
  note r = saveAISettings_first_ok [where fetch = fetch and t = t and s = s and k = k,
             OF assms h1 h2 h3 h4]
  show "aiStatus (app (saveAISettings fetch t s)) = ''ready''" using r by (rule conjunct1)
  show "probes (saveAISettings fetch t s) = probes s @ replicate k (health_url (app s))"
    using r by (rule conjunct2)
qed

theorem local_test_probes_at_most_max_witness:
  "aiMode (app fresh_state) = ''local''
   \<and> list_all (\<lambda>k. never_up (health_url (app fresh_state)) k \<noteq> RespOk) [1..<61]
   \<and> aiStatus (app (saveAISettings never_up t_key fresh_state)) = ''error''
   \<and> probes (saveAISettings never_up t_key fresh_state)
       = replicate 60 ''http://localhost:8080/health''
   \<and> alerts (saveAISettings never_up t_key fresh_state)
       = [''ai.connectionFailedPrefix'' @ ''ai.couldNotConnectPrefix'' @ ''180''
          @ ''ai.couldNotConnectSuffix'']
   \<and> up_at_3 (health_url (app fresh_state)) 1 \<noteq> RespOk
   \<and> up_at_3 (health_url (app fresh_state)) 2 \<noteq> RespOk
   \<and> up_at_3 (health_url (app fresh_state)) 3 = RespOk
   \<and> aiStatus (app (saveAISettings up_at_3 t_key fresh_state)) = ''ready''
   \<and> probes (saveAISettings up_at_3 t_key fresh_state)
       = replicate 3 ''http://localhost:8080/health''"
proof -
  have l: "aiMode (app fresh_state) = ''local''"
    by (simp add: fresh_state_def local_app_def)
  have u: "health_url (app fresh_state) = ''http://localhost:8080/health''"
    by (simp add: fresh_state_def local_app_def health_url_def)
  have p: "probes fresh_state = []" "alerts fresh_state = []"
    by (simp_all add: fresh_state_def)
  have n: "\<forall>k. 1 \<le> k \<and> k \<le> 60 \<longrightarrow> never_up (health_url (app fresh_state)) k \<noteq> RespOk"
    by (simp add: never_up_def)
  have o: "up_at_3 (health_url (app fresh_state)) 3 = RespOk"
    by (simp add: up_at_3_def)
  have b: "\<forall>j. 1 \<le> j \<and> j < 3 \<longrightarrow> up_at_3 (health_url (app fresh_state)) j \<noteq> RespOk"
    by (simp add: up_at_3_def)
  note never = local_test_probes_at_most_max
                 [where fetch = never_up and t = t_key and s = fresh_state, OF l]
  note third = local_test_probes_at_most_max
                 [where fetch = up_at_3 and t = t_key and s = fresh_state, OF l]
  have f: "aiStatus (app (saveAISettings never_up t_key fresh_state)) = ''error''
      \<and> probes (saveAISettings never_up t_key fresh_state)
          = probes fresh_state @ replicate 60 (health_url (app fresh_state))
      \<and> alerts (saveAISettings never_up t_key fresh_state)
          = alerts fresh_state @ [t_key ''ai.connectionFailedPrefix''
               @ t_key ''ai.couldNotConnectPrefix'' @ ''180'' @ t_key ''ai.couldNotConnectSuffix'']"
    using never [THEN conjunct2, THEN conjunct1] n by (rule mp)
  have c: "(1::nat) \<le> 3 \<and> (3::nat) \<le> 60 \<and> up_at_3 (health_url (app fresh_state)) 3 = RespOk
           \<and> (\<forall>j. 1 \<le> j \<and> j < 3 \<longrightarrow> up_at_3 (health_url (app fresh_state)) j \<noteq> RespOk)"
    using o b by simp
  have g: "aiStatus (app (saveAISettings up_at_3 t_key fresh_state)) = ''ready''
      \<and> probes (saveAISettings up_at_3 t_key fresh_state)
          = probes fresh_state @ replicate 3 (health_url (app fresh_state))"
    using third [THEN conjunct2, THEN conjunct2, THEN spec, of 3] c by (rule mp)
  have n': "list_all (\<lambda>k. never_up (health_url (app fresh_state)) k \<noteq> RespOk) [1..<61]"
    by (simp add: never_up_def list_all_iff)
  have b': "up_at_3 (health_url (app fresh_state)) 1 \<noteq> RespOk"
      "up_at_3 (health_url (app fresh_state)) 2 \<noteq> RespOk"
    by (simp_all add: up_at_3_def)
  show ?thesis
    using l n' o b' f g by (simp add: u p t_key_def)
qed

subsection \<open>When the settings are stored\<close>



end
